theory Spec2Isabelle
  imports Complex_Main "HOL-Library.Word"
begin

unbundle bit_operations_syntax

section \<open>JavaScript values used by the decoder\<close>

text \<open>
  The decoder of the Catena 5230 (format 0x50) is JavaScript. Its numbers are IEEE
  doubles, with NaN, the two infinities and a negative zero. A finite number is
  modelled by its real value; \<open>Fin 0\<close> is positive zero. A quotient is rounded to the
  nearest double, as the division of the source does (the division by 65535 in the
  humidity scaling is the one operation of the decoders whose exact result is not a
  double). Sums and products are exact: every sum the decoders form is an integer below
  2 to the 32, and every product is of a number of at most 19 significant bits with a
  power of two or with 100, so the exact result is a double. The heat index is computed
  over the reals, without rounding.
\<close>

datatype jsnum = NaN | PosInf | NegInf | NegZero | Fin real

text \<open>The sign bit, and the classes of a number.\<close>

fun is_neg :: "jsnum \<Rightarrow> bool" where
  "is_neg NaN = False"
| "is_neg PosInf = False"
| "is_neg NegInf = True"
| "is_neg NegZero = True"
| "is_neg (Fin r) = (r < 0)"

fun is_inf :: "jsnum \<Rightarrow> bool" where
  "is_inf PosInf = True"
| "is_inf NegInf = True"
| "is_inf _ = False"

fun is_zero :: "jsnum \<Rightarrow> bool" where
  "is_zero NegZero = True"
| "is_zero (Fin r) = (r = 0)"
| "is_zero _ = False"

fun val :: "jsnum \<Rightarrow> real" where
  "val (Fin r) = r"
| "val _ = 0"

definition zero_of :: "bool \<Rightarrow> jsnum" where
  "zero_of s = (if s then NegZero else Fin 0)"

definition inf_of :: "bool \<Rightarrow> jsnum" where
  "inf_of s = (if s then NegInf else PosInf)"

text \<open>\<open>x + y\<close> on numbers.\<close>

fun js_add :: "jsnum \<Rightarrow> jsnum \<Rightarrow> jsnum" where
  "js_add NaN _ = NaN"
| "js_add _ NaN = NaN"
| "js_add PosInf NegInf = NaN"
| "js_add NegInf PosInf = NaN"
| "js_add PosInf _ = PosInf"
| "js_add _ PosInf = PosInf"
| "js_add NegInf _ = NegInf"
| "js_add _ NegInf = NegInf"
| "js_add NegZero y = y"
| "js_add x NegZero = x"
| "js_add (Fin a) (Fin b) = Fin (a + b)"

text \<open>
  Rounding to the nearest double, ties to the even significand. \<open>binade n 0 x\<close> searches
  the exponent \<open>k\<close> with \<open>2 ^ k \<le> x < 2 ^ (k + 1)\<close> in at most \<open>n\<close> steps from 0; a double
  has 53 significant bits, so its last bit weighs \<open>2 ^ (k - 52)\<close>. The exponent range of
  a double (overflow, subnormal numbers) is not modelled: the quotients of the decoders
  lie between 2 to the -40 and 8.
\<close>

definition round_even :: "real \<Rightarrow> int" where
  "round_even y =
     (let f = \<lfloor>y\<rfloor>
      in if y - of_int f < 1 / 2 then f
         else if y - of_int f > 1 / 2 then f + 1
         else if even f then f else f + 1)"

fun binade :: "nat \<Rightarrow> int \<Rightarrow> real \<Rightarrow> int" where
  "binade 0 e x = e"
| "binade (Suc n) e x =
     (if 2 powi (e + 1) \<le> x then binade n (e + 1) x
      else if x < 2 powi e then binade n (e - 1) x
      else e)"

definition round_double :: "real \<Rightarrow> real" where
  "round_double x =
     (if x = 0 then 0
      else let q = binade 2200 0 \<bar>x\<bar> - 52
           in of_int (round_even (x / 2 powi q)) * 2 powi q)"

text \<open>\<open>x * y\<close> and \<open>x / y\<close>: the sign is the exclusive or of the signs, also for a zero.\<close>

definition js_mul :: "jsnum \<Rightarrow> jsnum \<Rightarrow> jsnum" where
  "js_mul x y =
     (if x = NaN \<or> y = NaN then NaN
      else if is_inf x \<or> is_inf y
        then (if is_zero x \<or> is_zero y then NaN else inf_of (is_neg x \<noteq> is_neg y))
      else if is_zero x \<or> is_zero y then zero_of (is_neg x \<noteq> is_neg y)
      else Fin (val x * val y))"

definition js_div :: "jsnum \<Rightarrow> jsnum \<Rightarrow> jsnum" where
  "js_div x y =
     (if x = NaN \<or> y = NaN then NaN
      else if is_inf x then (if is_inf y then NaN else inf_of (is_neg x \<noteq> is_neg y))
      else if is_inf y then zero_of (is_neg x \<noteq> is_neg y)
      else if is_zero y then (if is_zero x then NaN else inf_of (is_neg x \<noteq> is_neg y))
      else if is_zero x then zero_of (is_neg x \<noteq> is_neg y)
      else Fin (round_double (val x / val y)))"

text \<open>Unary minus.\<close>

fun js_neg :: "jsnum \<Rightarrow> jsnum" where
  "js_neg NaN = NaN"
| "js_neg PosInf = NegInf"
| "js_neg NegInf = PosInf"
| "js_neg NegZero = Fin 0"
| "js_neg (Fin r) = (if r = 0 then NegZero else Fin (- r))"

text \<open>\<open>x === y\<close> and \<open>x == y\<close> on two numbers: NaN equals nothing, the zeros are equal.\<close>

definition js_eq :: "jsnum \<Rightarrow> jsnum \<Rightarrow> bool" where
  "js_eq x y =
     (if x = NaN \<or> y = NaN then False
      else if is_zero x \<and> is_zero y then True
      else x = y)"

text \<open>
  The bitwise operators convert their left operand with ToInt32: NaN, the infinities and
  the zeros give 0, a finite number is truncated towards zero and wrapped to 32 bits,
  signed. Their result is a 32-bit integer, an \<open>int\<close> here; \<open>Int32\<close> makes it a
  number again. The right operand is an integer literal at every use in the source.
\<close>

definition trunc :: "real \<Rightarrow> int" where
  "trunc r = (if 0 \<le> r then \<lfloor>r\<rfloor> else \<lceil>r\<rceil>)"

definition wrap32 :: "int \<Rightarrow> int" where
  "wrap32 n = (n + 2 ^ 31) mod 2 ^ 32 - 2 ^ 31"

fun ToInt32 :: "jsnum \<Rightarrow> int" where
  "ToInt32 (Fin r) = wrap32 (trunc r)"
| "ToInt32 _ = 0"

definition Int32 :: "int \<Rightarrow> jsnum" where
  "Int32 n = Fin (of_int n)"

definition js_shl :: "jsnum \<Rightarrow> nat \<Rightarrow> int" where
  "js_shl x k = wrap32 (push_bit k (ToInt32 x))"

definition js_sar :: "jsnum \<Rightarrow> nat \<Rightarrow> int" where
  "js_sar x k = drop_bit k (ToInt32 x)"

definition js_and :: "jsnum \<Rightarrow> int \<Rightarrow> int" where
  "js_and x m = ToInt32 x AND m"

text \<open>
  \<open>Math.pow(2, k)\<close> for an integer \<open>k\<close>; the decoder calls it with \<open>k\<close> from -62 to 63,
  where the power is a double.
\<close>

definition Math_pow2 :: "int \<Rightarrow> real" where
  "Math_pow2 k = (if 0 \<le> k then 2 ^ nat k else 1 / 2 ^ nat (- k))"

text \<open>
  The payload is a buffer of bytes. \<open>bytes[k]\<close> is the byte at \<open>k\<close>, a number from 0 to
  255, or \<open>undefined\<close> (\<open>None\<close>) when \<open>k\<close> is past the end: JavaScript does not raise.
  ToNumber of \<open>undefined\<close> is NaN; its text is \<open>undefined\<close>.
\<close>

definition bytes_at :: "8 word list \<Rightarrow> nat \<Rightarrow> nat option" where
  "bytes_at bytes k = (if k < length bytes then Some (unat (bytes ! k)) else None)"

definition ToNumber :: "nat option \<Rightarrow> jsnum" where
  "ToNumber e = (case e of None \<Rightarrow> NaN | Some b \<Rightarrow> Fin (real b))"

fun decimal :: "nat \<Rightarrow> string" where
  "decimal n =
     (if n < 10 then [''0123456789'' ! n]
      else decimal (n div 10) @ [''0123456789'' ! (n mod 10)])"

declare decimal.simps [simp del]

definition ToString :: "nat option \<Rightarrow> string" where
  "ToString e = (case e of None \<Rightarrow> ''undefined'' | Some b \<Rightarrow> decimal b)"

text \<open>A property of a decoded object holds \<open>undefined\<close>, a number or a string.\<close>

datatype jsval = Undefined | Num jsnum | Str string

definition of_elem :: "nat option \<Rightarrow> jsval" where
  "of_elem e = (case e of None \<Rightarrow> Undefined | Some b \<Rightarrow> Num (Fin (real b)))"

type_synonym jsobj = "string \<rightharpoonup> jsval"

section \<open>The numeric codecs\<close>

text \<open>
  \<open>Parse\<close> is the cursor object of the source: the buffer and the index \<open>i\<close> of the next
  byte. A codec returns its value and the cursor it leaves.
\<close>

record Parse =
  Parse_bytes :: "8 word list"
  Parse_i :: nat

definition DecodeU16 :: "Parse \<Rightarrow> jsnum \<times> Parse" where
  "DecodeU16 P =
     (let i = Parse_i P;
          bytes = Parse_bytes P;
          raw = js_add (Int32 (js_shl (ToNumber (bytes_at bytes i)) 8))
                       (ToNumber (bytes_at bytes (i + 1)))
      in (raw, P\<lparr>Parse_i := i + 2\<rparr>))"

definition DecodeI16 :: "Parse \<Rightarrow> jsnum \<times> Parse" where
  "DecodeI16 P =
     (let (Vraw, P1) = DecodeU16 P
      in (if js_and Vraw 0x8000 \<noteq> 0 then js_add Vraw (Fin (- 0x10000)) else Vraw, P1))"

definition DecodeU32 :: "Parse \<Rightarrow> jsnum \<times> Parse" where
  "DecodeU32 P =
     (let i = Parse_i P;
          bytes = Parse_bytes P;
          result =
            js_add (js_add (js_add (Int32 (js_shl (ToNumber (bytes_at bytes (i + 0))) 24))
                                   (Int32 (js_shl (ToNumber (bytes_at bytes (i + 1))) 16)))
                           (Int32 (js_shl (ToNumber (bytes_at bytes (i + 2))) 8)))
                   (ToNumber (bytes_at bytes (i + 3)))
      in (result, P\<lparr>Parse_i := i + 4\<rparr>))"

definition DecodeV :: "Parse \<Rightarrow> jsnum \<times> Parse" where
  "DecodeV P = (let (v, P1) = DecodeI16 P in (js_div v (Fin 4096), P1))"

definition DecodeUflt16 :: "Parse \<Rightarrow> jsnum \<times> Parse" where
  "DecodeUflt16 P =
     (let (rawUflt16, P1) = DecodeU16 P;
          exp1 = js_sar rawUflt16 12;
          mant1 = js_div (Int32 (js_and rawUflt16 0xFFF)) (Fin 4096);
          f_unscaled = js_mul mant1 (Fin (Math_pow2 (exp1 - 15)))
      in (f_unscaled, P1))"

definition DecodeSflt16 :: "Parse \<Rightarrow> jsnum \<times> Parse" where
  "DecodeSflt16 P =
     (let (rawSflt16, P1) = DecodeU16 P
      in if js_eq rawSflt16 (Fin 0x8000) then (NegZero, P1)
         else
           let sSign = (if js_and rawSflt16 0x8000 \<noteq> 0 then Fin (- 1) else Fin 1);
               exp1 = js_sar rawSflt16 11 AND 0xF;
               mant1 = js_div (Int32 (js_and rawSflt16 0x7FF)) (Fin 2048);
               f_unscaled = js_mul (js_mul sSign mant1) (Fin (Math_pow2 (exp1 - 15)))
           in (f_unscaled, P1))"

definition DecodeU24 :: "Parse \<Rightarrow> jsnum \<times> Parse" where
  "DecodeU24 P =
     (let i = Parse_i P;
          bytes = Parse_bytes P;
          result =
            js_add (js_add (Int32 (js_shl (ToNumber (bytes_at bytes i)) 16))
                           (Int32 (js_shl (ToNumber (bytes_at bytes (i + 1))) 8)))
                   (ToNumber (bytes_at bytes (i + 2)))
      in (result, P\<lparr>Parse_i := i + 3\<rparr>))"

definition DecodeSflt24 :: "Parse \<Rightarrow> jsnum \<times> Parse" where
  "DecodeSflt24 P =
     (let (rawSflt24, P1) = DecodeU24 P;
          bSign = (js_and rawSflt24 0x800000 \<noteq> 0);
          uExp = drop_bit 16 (js_and rawSflt24 0x7F0000);
          uMantissa = js_and rawSflt24 0x00FFFF
      in if uExp = 0x7F then
           (if uMantissa = 0 then (if bSign then NegInf else PosInf, P1) else (NaN, P1))
         else
           let (uMantissa, uExp) =
                 (if uExp \<noteq> 0 then (uMantissa + 0x010000, uExp) else (uMantissa, 1));
               mantissa = js_div (Int32 uMantissa) (Fin 0x010000);
               mantissa = js_mul (Fin (Math_pow2 (uExp - 63))) mantissa
           in (if bSign then js_neg mantissa else mantissa, P1))"

definition DecodeLux :: "Parse \<Rightarrow> jsnum \<times> Parse" where
  "DecodeLux P = DecodeSflt24 P"

section \<open>The heat index\<close>

text \<open>
  \<open>CalculateHeatIndex(t, rh)\<close> on real arguments; \<open>None\<close> is the \<open>null\<close> it returns.
  \<open>tHeatEasy\<close> is the simple formula the function tries first.
\<close>

definition tHeatEasy :: "real \<Rightarrow> real \<Rightarrow> real" where
  "tHeatEasy t rh = 0.5 * (t + 61.0 + ((t - 68.0) * 1.2) + (rh * 0.094))"

definition tAdjust :: "real \<Rightarrow> real \<Rightarrow> real" where
  "tAdjust t rh =
     (if rh < 13.0 \<and> 80.0 \<le> t \<and> t \<le> 112.0
        then - ((13.0 - rh) / 4.0) * sqrt ((17.0 - \<bar>t - 95.0\<bar>) / 17.0)
      else if rh > 85.0 \<and> 80.0 \<le> t \<and> t \<le> 87.0
        then ((rh - 85.0) / 10.0) * ((87.0 - t) / 5.0)
      else 0)"

definition tHard :: "real \<Rightarrow> real \<Rightarrow> real" where
  "tHard t rh =
     (let t2 = t * t; rh2 = rh * rh
      in - 42.379 +
         (2.04901523 * t) +
         (10.14333127 * rh) +
         (- 0.22475541 * t * rh) +
         (- 0.00683783 * t2) +
         (- 0.05481717 * rh2) +
         (0.00122874 * t2 * rh) +
         (0.00085282 * t * rh2) +
         (- 0.00000199 * t2 * rh2))"

definition CalculateHeatIndex :: "real \<Rightarrow> real \<Rightarrow> real option" where
  "CalculateHeatIndex t rh =
     (let tRounded = \<lfloor>t + 0.5\<rfloor>
      in if tRounded < 76 \<or> tRounded > 126 then None
         else if rh < 0 \<or> rh > 100 then None
         else if tHeatEasy t rh + t < 160.0 then Some (tHeatEasy t rh)
         else
           let tResult = tHard t rh + tAdjust t rh
           in if tResult \<ge> 183.5 then None else Some tResult)"

section \<open>The downlink-response decoder\<close>

text \<open>\<open>bytes[Parse.i++]\<close>: the byte at the cursor, which then moves by one.\<close>

definition read_inc :: "Parse \<Rightarrow> nat option \<times> Parse" where
  "read_inc P = (bytes_at (Parse_bytes P) (Parse_i P), P\<lparr>Parse_i := Parse_i P + 1\<rparr>)"

text \<open>
  The status block, which the source repeats for the commands 0x03 to 0x07: any status
  other than 0, 1 and 2 leaves \<open>Response\<close> unset.
\<close>

definition set_Response :: "jsobj \<Rightarrow> nat option \<Rightarrow> jsobj" where
  "set_Response decoded responseError =
     (if responseError = Some 0 then decoded(''Response'' \<mapsto> Str ''Success'')
      else if responseError = Some 1 then decoded(''Response'' \<mapsto> Str ''Invalid Length'')
      else if responseError = Some 2 then decoded(''Response'' \<mapsto> Str ''Failure'')
      else decoded)"

definition set_Rev :: "jsobj \<Rightarrow> nat option \<Rightarrow> jsobj" where
  "set_Rev decoded Rev =
     (if Rev = Some 0 then decoded(''Rev'' \<mapsto> Str ''A'')
      else if Rev = Some 1 then decoded(''Rev'' \<mapsto> Str ''B'')
      else if Rev = Some 2 then decoded(''Rev'' \<mapsto> Str ''C'')
      else if Rev = Some 3 then decoded(''Rev'' \<mapsto> Str ''D'')
      else if Rev = Some 4 then decoded(''Rev'' \<mapsto> Str ''E'')
      else decoded)"

definition DecodeDownlinkResponse :: "8 word list \<Rightarrow> jsobj" where
  "DecodeDownlinkResponse bytes =
     (let decoded = Map.empty;
          P = \<lparr>Parse_bytes = bytes, Parse_i = 0\<rparr>;
          (command, P) = read_inc P
      in if command = Some 0x01 then decoded
         else if command = Some 0x02 then decoded
         else if command = Some 0x03 then
           (let decoded = decoded(''ResponseType'' \<mapsto> Str ''Device Version'');
                (responseError, P) = read_inc P;
                decoded = set_Response decoded responseError;
                (vMajor, P) = read_inc P;
                (vMinor, P) = read_inc P;
                (vPatch, P) = read_inc P;
                (vLocal, P) = read_inc P;
                decoded = decoded(''AppVersion'' \<mapsto>
                  Str (''V'' @ ToString vMajor @ ''.'' @ ToString vMinor @ ''.'' @
                       ToString vPatch @ ''.'' @ ToString vLocal));
                (Model, P) = DecodeU16 P;
                (Rev, P) = read_inc P
            in if \<not> js_eq Model (Fin 0) then set_Rev (decoded(''Model'' \<mapsto> Num Model)) Rev
               else if js_eq Model (Fin 0)
                 then decoded(''Model'' \<mapsto> Num (Fin 5230), ''Rev'' \<mapsto> Str ''Not Found'')
               else decoded)
         else if command = Some 0x04 then
           (let decoded = decoded(''ResponseType'' \<mapsto> Str ''AppEUI Set'');
                (responseError, P) = read_inc P
            in set_Response decoded responseError)
         else if command = Some 0x05 then
           (let decoded = decoded(''ResponseType'' \<mapsto> Str ''AppKey set'');
                (responseError, P) = read_inc P
            in set_Response decoded responseError)
         else if command = Some 0x06 then
           (let decoded = decoded(''ResponseType'' \<mapsto> Str ''Rejoin'');
                (responseError, P) = read_inc P
            in set_Response decoded responseError)
         else if command = Some 0x07 then
           (let decoded = decoded(''ResponseType'' \<mapsto> Str ''Uplink Interval'');
                (responseError, P) = read_inc P;
                decoded = set_Response decoded responseError;
                (interval, P) = DecodeU32 P
            in decoded(''UplinkInterval'' \<mapsto> Num interval))
         else decoded)"

section \<open>The uplink decoder and the dispatch on the port\<close>

text \<open>
  \<open>Decoder\<close> tests the six low bits of the bitmap in six consecutive \<open>if\<close> blocks.
  Each block is a function on the pair of the object \<open>decoded\<close> and the cursor \<open>Parse\<close>,
  under the name of what it decodes; \<open>Decoder_fields\<close> is the part of \<open>Decoder\<close> from
  the creation of \<open>Parse\<close> to the last block, and also returns the cursor it ends with.
\<close>

definition flag_set :: "nat option \<Rightarrow> int \<Rightarrow> bool" where
  "flag_set flags m = (js_and (ToNumber flags) m \<noteq> 0)"

definition Decoder_volts :: "nat option \<Rightarrow> jsobj \<times> Parse \<Rightarrow> jsobj \<times> Parse" where
  "Decoder_volts flags st =
     (let (decoded, P) = st
      in if flag_set flags 0x1 then
           (let (vBat, P) = DecodeV P;
                (vBus, P) = DecodeV P;
                (vSys, P) = DecodeV P
            in (decoded(''vBat'' \<mapsto> Num vBat, ''vBus'' \<mapsto> Num vBus, ''vSys'' \<mapsto> Num vSys), P))
         else (decoded, P))"

definition Decoder_version :: "nat option \<Rightarrow> jsobj \<times> Parse \<Rightarrow> jsobj \<times> Parse" where
  "Decoder_version flags st =
     (let (decoded, P) = st
      in if flag_set flags 0x2 then
           (let (vMajor, P) = read_inc P;
                (vMinor, P) = read_inc P;
                (vPatch, P) = read_inc P;
                (vLocal, P) = read_inc P
            in (decoded(''version'' \<mapsto>
                  Str (ToString vMajor @ ''.'' @ ToString vMinor @ ''.'' @
                       ToString vPatch @ ''.'' @ ToString vLocal)), P))
         else (decoded, P))"

definition Decoder_boot :: "nat option \<Rightarrow> jsobj \<times> Parse \<Rightarrow> jsobj \<times> Parse" where
  "Decoder_boot flags st =
     (let (decoded, P) = st
      in if flag_set flags 0x4 then
           (let (iBoot, P) = read_inc P
            in (decoded(''boot'' \<mapsto> of_elem iBoot), P))
         else (decoded, P))"

definition Decoder_t_rh :: "nat option \<Rightarrow> jsobj \<times> Parse \<Rightarrow> jsobj \<times> Parse" where
  "Decoder_t_rh flags st =
     (let (decoded, P) = st
      in if flag_set flags 0x8 then
           (let (t, P) = DecodeI16 P;
                (u, P) = DecodeUflt16 P
            in (decoded(''t'' \<mapsto> Num t,
                        ''rh'' \<mapsto> Num (js_div (js_mul u (Fin 100)) (Fin 65535))), P))
         else (decoded, P))"

definition Decoder_lux :: "nat option \<Rightarrow> jsobj \<times> Parse \<Rightarrow> jsobj \<times> Parse" where
  "Decoder_lux flags st =
     (let (decoded, P) = st
      in if flag_set flags 0x10 then
           (let (lux, P) = DecodeLux P
            in (decoded(''lux'' \<mapsto> Num lux), P))
         else (decoded, P))"

definition Decoder_tap :: "nat option \<Rightarrow> jsobj \<times> Parse \<Rightarrow> jsobj \<times> Parse" where
  "Decoder_tap flags st =
     (let (decoded, P) = st
      in if flag_set flags 0x20 then
           (decoded(''tap'' \<mapsto> of_elem (bytes_at (Parse_bytes P) (Parse_i P))), P)
         else (decoded, P))"

definition Decoder_fields :: "8 word list \<Rightarrow> jsobj \<times> Parse" where
  "Decoder_fields bytes =
     (let P = \<lparr>Parse_bytes = bytes, Parse_i = 1\<rparr>;
          (flags, P) = read_inc P
      in Decoder_tap flags (Decoder_lux flags (Decoder_t_rh flags (Decoder_boot flags
           (Decoder_version flags (Decoder_volts flags (Map.empty, P)))))))"

text \<open>\<open>Decoder(bytes, port)\<close>; \<open>None\<close> is the \<open>null\<close> it returns.\<close>

definition Decoder :: "8 word list \<Rightarrow> int \<Rightarrow> jsobj option" where
  "Decoder bytes port =
     (if port = 3 then Some (DecodeDownlinkResponse bytes)
      else if \<not> (port = 1) \<and> \<not> (port = 3) \<and> \<not> (port = 4) then None
      else
        let uFormat = bytes_at bytes 0
        in if \<not> (uFormat = Some 0x50) then None
           else Some (fst (Decoder_fields bytes)))"

section \<open>The bitmap of the uplink format, as the specification reads it\<close>

text \<open>
  The specification lists the field group of each bit of the bitmap byte and the fields
  of each group on the wire: three 16-bit voltages, four version bytes, one boot byte,
  a 16-bit temperature and a 16-bit humidity, a 24-bit lux value, one tap byte.
  \<open>selected_fields\<close> is the set of field names of a bitmap, \<open>needed_bytes\<close> the
  number of bytes its groups take after the bitmap, and \<open>cursor_advance\<close> the number of
  bytes by which the groups of the bits 0 to 4 move the cursor. Bits 6 and 7 select
  nothing.
\<close>

definition selected_fields :: "8 word \<Rightarrow> string set" where
  "selected_fields bitmap =
     (if bit bitmap 0 then {''vBat'', ''vBus'', ''vSys''} else {}) \<union>
     (if bit bitmap 1 then {''version''} else {}) \<union>
     (if bit bitmap 2 then {''boot''} else {}) \<union>
     (if bit bitmap 3 then {''t'', ''rh''} else {}) \<union>
     (if bit bitmap 4 then {''lux''} else {}) \<union>
     (if bit bitmap 5 then {''tap''} else {})"

definition cursor_advance :: "8 word \<Rightarrow> nat" where
  "cursor_advance bitmap =
     (if bit bitmap 0 then 6 else 0) +
     (if bit bitmap 1 then 4 else 0) +
     (if bit bitmap 2 then 1 else 0) +
     (if bit bitmap 3 then 4 else 0) +
     (if bit bitmap 4 then 3 else 0)"

definition needed_bytes :: "8 word \<Rightarrow> nat" where
  "needed_bytes bitmap = cursor_advance bitmap + (if bit bitmap 5 then 1 else 0)"

text \<open>
  \<open>group_offset bitmap k\<close> is the offset in the buffer at which the group of bit \<open>k\<close>
  starts: 2 plus the widths of the groups of the set bits below \<open>k\<close>.
\<close>

definition group_offset :: "8 word \<Rightarrow> nat \<Rightarrow> nat" where
  "group_offset bitmap k =
     2 + (if 0 < k \<and> bit bitmap 0 then 6 else 0) +
         (if 1 < k \<and> bit bitmap 1 then 4 else 0) +
         (if 2 < k \<and> bit bitmap 2 then 1 else 0) +
         (if 3 < k \<and> bit bitmap 3 then 4 else 0) +
         (if 4 < k \<and> bit bitmap 4 then 3 else 0)"

text \<open>
  The status byte of a downlink response, as the specification reads it: 0 is Success,
  1 is Invalid Length, 2 is Failure, and any other value, or no byte, leaves the status
  absent.
\<close>

definition status_text :: "nat option \<Rightarrow> jsval option" where
  "status_text e =
     (if e = Some 0 then Some (Str ''Success'')
      else if e = Some 1 then Some (Str ''Invalid Length'')
      else if e = Some 2 then Some (Str ''Failure'')
      else None)"

text \<open>
  The value of the 24-bit signed float, as the specification reads it, from the sign
  bit, the 7-bit exponent field \<open>E\<close> and the 16-bit mantissa field \<open>M\<close>: the exponent
  field 0x7F is an infinity of that sign for the mantissa 0 and NaN otherwise; any other
  value is sign times mantissa times 2 to the exponent minus 63, with the implicit bit
  added to the mantissa unless \<open>E\<close> is 0, where the exponent counts as 1. The products
  are products of JavaScript numbers, so a zero mantissa under a set sign bit is
  negative zero.
\<close>

definition Sflt24_value :: "bool \<Rightarrow> int \<Rightarrow> int \<Rightarrow> jsnum" where
  "Sflt24_value neg E M =
     (let sign = Fin (if neg then - 1 else 1)
      in if E = 0x7F then (if M = 0 then (if neg then NegInf else PosInf) else NaN)
         else if E \<noteq> 0 then
           js_mul (js_mul sign (Fin ((of_int M + 0x10000) / 0x10000))) (Fin (2 powi (E - 63)))
         else
           js_mul (js_mul sign (Fin (of_int M / 0x10000))) (Fin (2 powi (1 - 63))))"

section \<open>Reading bytes and 16-bit values\<close>

lemma bytes_at_in: "k < length bytes \<Longrightarrow> bytes_at bytes k = Some (unat (bytes ! k))"
  by (simp add: bytes_at_def)

lemma bytes_at_out: "length bytes \<le> k \<Longrightarrow> bytes_at bytes k = None"
  by (simp add: bytes_at_def)

lemma wrap32_id: "0 \<le> n \<Longrightarrow> n < 2147483648 \<Longrightarrow> wrap32 n = n"
  by (simp add: wrap32_def)

lemma trunc_of_int: "trunc (of_int n) = n"
  by (simp add: trunc_def)

lemma ToInt32_Int32: "0 \<le> n \<Longrightarrow> n < 2147483648 \<Longrightarrow> ToInt32 (Int32 n) = n"
  by (simp add: Int32_def trunc_of_int wrap32_id)

lemma ToInt32_byte: "ToInt32 (ToNumber (Some (unat (b :: 8 word)))) = uint b"
proof -
  have "uint b < 2 ^ 8" using uint_bounded [of b] by simp
  then have "uint b < 2 ^ 31" by simp
  moreover have "0 \<le> uint b" by simp
  moreover have "trunc (real (unat b)) = uint b"
    using trunc_of_int [of "uint b"] by (simp add: trunc_def)
  ultimately show ?thesis by (simp add: ToNumber_def wrap32_id)
qed

lemma js_shl_byte:
  assumes "k \<le> 16"
  shows "js_shl (ToNumber (Some (unat (b :: 8 word)))) k = uint b * 2 ^ k"
proof -
  have b: "uint b < 2 ^ 8" "0 \<le> uint b" using uint_bounded [of b] by simp_all
  have "uint b * 2 ^ k < 2 ^ 8 * 2 ^ k" using b by simp
  also have "\<dots> = (2::int) ^ (8 + k)" by (simp add: power_add)
  also have "\<dots> \<le> 2 ^ 24" using assms by (intro power_increasing) simp_all
  finally have "uint b * 2 ^ k < 2 ^ 31" by simp
  moreover have "0 \<le> uint b * 2 ^ k" using b by simp
  ultimately show ?thesis
    by (simp add: js_shl_def ToInt32_byte push_bit_eq_mult wrap32_id)
qed

text \<open>
  With two bytes at the cursor \<open>DecodeU16\<close> is the big-endian value; with fewer, the
  second read is \<open>undefined\<close> and the sum is NaN. The cursor moves by two either way.
\<close>

lemma DecodeU16_in:
  assumes "Parse_i P + 1 < length (Parse_bytes P)"
  shows "DecodeU16 P =
    (Int32 (uint (Parse_bytes P ! Parse_i P) * 256 + uint (Parse_bytes P ! (Parse_i P + 1))),
     P\<lparr>Parse_i := Parse_i P + 2\<rparr>)"
  using assms js_shl_byte [of 8 "Parse_bytes P ! Parse_i P"]
  by (simp add: DecodeU16_def Let_def bytes_at_in Int32_def ToNumber_def)

lemma DecodeU16_out:
  assumes "length (Parse_bytes P) \<le> Parse_i P + 1"
  shows "DecodeU16 P = (NaN, P\<lparr>Parse_i := Parse_i P + 2\<rparr>)"
  using assms
  by (simp add: DecodeU16_def Let_def bytes_at_out Int32_def ToNumber_def)

section \<open>The 16-bit signed float\<close>

text \<open>
  Claim C8. At every cursor that stands on the two bytes 0x80 0x00, \<open>DecodeSflt16\<close>
  returns negative zero, which is not positive zero, and moves the cursor by two.
\<close>

theorem DecodeSflt16_0x8000_is_negative_zero:
  assumes "Parse_i P + 1 < length (Parse_bytes P)"
    and "Parse_bytes P ! Parse_i P = 0x80"
    and "Parse_bytes P ! (Parse_i P + 1) = 0x00"
  shows "DecodeSflt16 P = (NegZero, P\<lparr>Parse_i := Parse_i P + 2\<rparr>) \<and>
         fst (DecodeSflt16 P) \<noteq> Fin 0"
  using assms by (simp add: DecodeSflt16_def DecodeU16_in Int32_def js_eq_def)

theorem DecodeSflt16_0x8000_is_negative_zero_witness:
  "Parse_i \<lparr>Parse_bytes = [0x11, 0x80, 0x00], Parse_i = 1\<rparr> + 1
     < length (Parse_bytes \<lparr>Parse_bytes = [0x11, 0x80, 0x00 :: 8 word], Parse_i = 1\<rparr>) \<and>
   DecodeSflt16 \<lparr>Parse_bytes = [0x11, 0x80, 0x00], Parse_i = 1\<rparr> =
     (NegZero, \<lparr>Parse_bytes = [0x11, 0x80, 0x00], Parse_i = 3\<rparr>)"
  using DecodeSflt16_0x8000_is_negative_zero
          [of "\<lparr>Parse_bytes = [0x11, 0x80, 0x00], Parse_i = 1\<rparr>"]
  by simp

section \<open>The cursor and the fields of each block\<close>

text \<open>Every codec moves the cursor by its width, whatever the buffer holds.\<close>

lemma snd_DecodeU16: "snd (DecodeU16 P) = P\<lparr>Parse_i := Parse_i P + 2\<rparr>"
  by (simp add: DecodeU16_def Let_def)

lemma snd_DecodeI16: "snd (DecodeI16 P) = P\<lparr>Parse_i := Parse_i P + 2\<rparr>"
  by (simp add: DecodeI16_def case_prod_unfold Let_def snd_DecodeU16)

lemma snd_DecodeV: "snd (DecodeV P) = P\<lparr>Parse_i := Parse_i P + 2\<rparr>"
  by (simp add: DecodeV_def case_prod_unfold Let_def snd_DecodeI16)

lemma snd_DecodeUflt16: "snd (DecodeUflt16 P) = P\<lparr>Parse_i := Parse_i P + 2\<rparr>"
  by (simp add: DecodeUflt16_def case_prod_unfold Let_def snd_DecodeU16)

lemma snd_DecodeU24: "snd (DecodeU24 P) = P\<lparr>Parse_i := Parse_i P + 3\<rparr>"
  by (simp add: DecodeU24_def Let_def)

lemma snd_DecodeLux: "snd (DecodeLux P) = P\<lparr>Parse_i := Parse_i P + 3\<rparr>"
  by (simp add: DecodeLux_def DecodeSflt24_def case_prod_unfold Let_def snd_DecodeU24)

lemma snd_read_inc: "snd (read_inc P) = P\<lparr>Parse_i := Parse_i P + 1\<rparr>"
  by (simp add: read_inc_def)

lemma fst_read_inc: "fst (read_inc P) = bytes_at (Parse_bytes P) (Parse_i P)"
  by (simp add: read_inc_def)

text \<open>Each block of \<open>Decoder\<close>: where it leaves the cursor, and the fields it adds.\<close>

lemma snd_Decoder_volts:
  "snd (Decoder_volts flags st) =
     (snd st)\<lparr>Parse_i := Parse_i (snd st) + (if flag_set flags 0x1 then 6 else 0)\<rparr>"
  by (cases st) (simp add: Decoder_volts_def case_prod_unfold Let_def snd_DecodeV)

lemma dom_Decoder_volts:
  "dom (fst (Decoder_volts flags st)) =
     dom (fst st) \<union> (if flag_set flags 0x1 then {''vBat'', ''vBus'', ''vSys''} else {})"
  by (cases st) (auto simp add: Decoder_volts_def case_prod_unfold Let_def)

lemma snd_Decoder_version:
  "snd (Decoder_version flags st) =
     (snd st)\<lparr>Parse_i := Parse_i (snd st) + (if flag_set flags 0x2 then 4 else 0)\<rparr>"
  by (cases st) (simp add: Decoder_version_def case_prod_unfold Let_def snd_read_inc)

lemma dom_Decoder_version:
  "dom (fst (Decoder_version flags st)) =
     dom (fst st) \<union> (if flag_set flags 0x2 then {''version''} else {})"
  by (cases st) (simp add: Decoder_version_def case_prod_unfold Let_def)

lemma snd_Decoder_boot:
  "snd (Decoder_boot flags st) =
     (snd st)\<lparr>Parse_i := Parse_i (snd st) + (if flag_set flags 0x4 then 1 else 0)\<rparr>"
  by (cases st) (simp add: Decoder_boot_def case_prod_unfold Let_def snd_read_inc)

lemma dom_Decoder_boot:
  "dom (fst (Decoder_boot flags st)) =
     dom (fst st) \<union> (if flag_set flags 0x4 then {''boot''} else {})"
  by (cases st) (simp add: Decoder_boot_def case_prod_unfold Let_def)

lemma snd_Decoder_t_rh:
  "snd (Decoder_t_rh flags st) =
     (snd st)\<lparr>Parse_i := Parse_i (snd st) + (if flag_set flags 0x8 then 4 else 0)\<rparr>"
  by (cases st) (simp add: Decoder_t_rh_def case_prod_unfold Let_def snd_DecodeI16 snd_DecodeUflt16)

lemma dom_Decoder_t_rh:
  "dom (fst (Decoder_t_rh flags st)) =
     dom (fst st) \<union> (if flag_set flags 0x8 then {''t'', ''rh''} else {})"
  by (cases st) (auto simp add: Decoder_t_rh_def case_prod_unfold Let_def)

lemma snd_Decoder_lux:
  "snd (Decoder_lux flags st) =
     (snd st)\<lparr>Parse_i := Parse_i (snd st) + (if flag_set flags 0x10 then 3 else 0)\<rparr>"
  by (cases st) (simp add: Decoder_lux_def case_prod_unfold Let_def snd_DecodeLux)

lemma dom_Decoder_lux:
  "dom (fst (Decoder_lux flags st)) =
     dom (fst st) \<union> (if flag_set flags 0x10 then {''lux''} else {})"
  by (cases st) (simp add: Decoder_lux_def case_prod_unfold Let_def)

lemma snd_Decoder_tap: "snd (Decoder_tap flags st) = snd st"
  by (cases st) (simp add: Decoder_tap_def)

lemma dom_Decoder_tap:
  "dom (fst (Decoder_tap flags st)) =
     dom (fst st) \<union> (if flag_set flags 0x20 then {''tap''} else {})"
  by (cases st) (simp add: Decoder_tap_def)

text \<open>
  The test \<open>flags & m\<close> of a block reads one bit of the bitmap byte; with no bitmap byte
  in the buffer \<open>flags\<close> is \<open>undefined\<close> and no test succeeds.
\<close>

lemma flag_set_None: "\<not> flag_set None m"
  by (simp add: flag_set_def js_and_def ToNumber_def)

lemma flag_set_bit:
  "flag_set (Some (unat (b :: 8 word))) (2 ^ k) \<longleftrightarrow> bit b k"
  using bit_imp_le_length [of b k]
  by (auto simp add: flag_set_def js_and_def ToInt32_byte and_exp_eq_0_iff_not_bit bit_uint_iff)

lemma flag_bits:
  "flag_set (Some (unat (b :: 8 word))) 0x1 = bit b 0"
  "flag_set (Some (unat b)) 0x2 = bit b 1"
  "flag_set (Some (unat b)) 0x4 = bit b 2"
  "flag_set (Some (unat b)) 0x8 = bit b 3"
  "flag_set (Some (unat b)) 0x10 = bit b 4"
  "flag_set (Some (unat b)) 0x20 = bit b 5"
  using flag_set_bit [of b 0] flag_set_bit [of b 1] flag_set_bit [of b 2]
    flag_set_bit [of b 3] flag_set_bit [of b 4] flag_set_bit [of b 5]
  by simp_all

lemmas snd_block = snd_Decoder_volts snd_Decoder_version snd_Decoder_boot snd_Decoder_t_rh
  snd_Decoder_lux snd_Decoder_tap

lemmas dom_block = dom_Decoder_volts dom_Decoder_version dom_Decoder_boot dom_Decoder_t_rh
  dom_Decoder_lux dom_Decoder_tap

text \<open>
  \<open>Decoder_fields\<close> reads the bitmap at offset 1 and starts the blocks at offset 2.
\<close>

lemma Decoder_fields_unfold:
  "Decoder_fields bytes =
     Decoder_tap (bytes_at bytes 1) (Decoder_lux (bytes_at bytes 1)
       (Decoder_t_rh (bytes_at bytes 1) (Decoder_boot (bytes_at bytes 1)
         (Decoder_version (bytes_at bytes 1) (Decoder_volts (bytes_at bytes 1)
           (Map.empty, \<lparr>Parse_bytes = bytes, Parse_i = 2\<rparr>))))))"
  by (simp add: Decoder_fields_def read_inc_def Let_def numeral_2_eq_2)

lemma Decoder_fields_cursor:
  assumes "1 < length bytes"
  shows "snd (Decoder_fields bytes) =
    \<lparr>Parse_bytes = bytes, Parse_i = 2 + cursor_advance (bytes ! 1)\<rparr>"
  using assms
  by (simp add: Decoder_fields_def read_inc_def Let_def bytes_at_in snd_block flag_bits
      cursor_advance_def split del: if_split)

lemma Decoder_fields_dom:
  assumes "1 < length bytes"
  shows "dom (fst (Decoder_fields bytes)) = selected_fields (bytes ! 1)"
  using assms
  by (simp add: Decoder_fields_def read_inc_def Let_def bytes_at_in dom_block flag_bits
      selected_fields_def split del: if_split)

lemma Decoder_fields_short:
  assumes "length bytes \<le> 1"
  shows "Decoder_fields bytes = (Map.empty, \<lparr>Parse_bytes = bytes, Parse_i = 2\<rparr>)"
  using assms
  by (simp add: Decoder_fields_def read_inc_def Let_def bytes_at_out flag_set_None
      Decoder_volts_def Decoder_version_def Decoder_boot_def Decoder_t_rh_def Decoder_lux_def Decoder_tap_def)

lemma flags_0x08:
  "\<not> flag_set (Some 8) 0x1" "\<not> flag_set (Some 8) 0x2" "\<not> flag_set (Some 8) 0x4"
  "flag_set (Some 8) 0x8" "\<not> flag_set (Some 8) 0x10" "\<not> flag_set (Some 8) 0x20"
  by (simp_all add: flag_set_def js_and_def ToNumber_def trunc_def wrap32_def)

section \<open>Reads past the end of the buffer\<close>

text \<open>
  No codec tests the length of the buffer. A 16-bit or 24-bit read that lacks its last
  byte adds \<open>undefined\<close> and is NaN; the signed and the fixed-point reading keep the
  NaN, and the two float readings turn it into 0, since the bitwise operators read NaN
  as 0.
\<close>

lemma DecodeI16_short:
  "length (Parse_bytes P) \<le> Parse_i P + 1 \<Longrightarrow> fst (DecodeI16 P) = NaN"
  by (simp add: DecodeI16_def DecodeU16_out js_and_def)

lemma DecodeV_short:
  "length (Parse_bytes P) \<le> Parse_i P + 1 \<Longrightarrow> fst (DecodeV P) = NaN"
  by (simp add: DecodeV_def DecodeI16_def DecodeU16_out js_and_def js_div_def)

lemma DecodeUflt16_short:
  "length (Parse_bytes P) \<le> Parse_i P + 1 \<Longrightarrow> fst (DecodeUflt16 P) = Fin 0"
  by (simp add: DecodeUflt16_def DecodeU16_out js_and_def js_sar_def js_div_def js_mul_def
      Int32_def zero_of_def Math_pow2_def)

lemma js_add_NaN_right: "js_add x NaN = NaN"
  by (cases x) simp_all

lemma DecodeU24_short:
  "length (Parse_bytes P) \<le> Parse_i P + 2 \<Longrightarrow> fst (DecodeU24 P) = NaN"
  by (simp add: DecodeU24_def Let_def bytes_at_out ToNumber_def js_add_NaN_right)

lemma DecodeLux_short:
  assumes "length (Parse_bytes P) \<le> Parse_i P + 2"
  shows "fst (DecodeLux P) = Fin 0"
  by (simp add: DecodeLux_def DecodeSflt24_def case_prod_unfold Let_def
      DecodeU24_short [OF assms] js_and_def js_div_def js_mul_def
      Int32_def zero_of_def Math_pow2_def)

section \<open>The uplink record\<close>

text \<open>
  Claim C4. For the ports 1 and 4, the format tag 0x50 and a buffer that holds the bytes
  of every selected group, the record \<open>Decoder\<close> returns has exactly the fields of the
  bits that are set in the bitmap, bits 6 and 7 adding none, and the cursor ends at
  2 plus the widths of the groups of the set bits among 0 to 4: a bit that is not set
  moves it by nothing. In particular the bitmap 0x08 followed by four bytes decodes
  \<open>t\<close> from offset 2 and \<open>rh\<close> from offset 4 and ends at offset 6.
\<close>

theorem uplink_fields_follow_bitmap:
  fixes bytes :: "8 word list" and a b c d :: "8 word"
  assumes "port = 1 \<or> port = 4"
    and "bytes ! 0 = 0x50"
    and "2 + needed_bytes (bytes ! 1) \<le> length bytes"
  shows "map_option dom (Decoder bytes port) = Some (selected_fields (bytes ! 1)) \<and>
         Parse_i (snd (Decoder_fields bytes)) = 2 + cursor_advance (bytes ! 1) \<and>
         Decoder [0x50, 0x08, a, b, c, d] port =
           Some [''t'' \<mapsto> Num (fst (DecodeI16 \<lparr>Parse_bytes = [0x50, 0x08, a, b, c, d], Parse_i = 2\<rparr>)),
                 ''rh'' \<mapsto> Num (js_div (js_mul
                    (fst (DecodeUflt16 \<lparr>Parse_bytes = [0x50, 0x08, a, b, c, d], Parse_i = 4\<rparr>))
                    (Fin 100)) (Fin 65535))] \<and>
         Parse_i (snd (Decoder_fields [0x50, 0x08, a, b, c, d])) = 6"
proof -
  have len: "1 < length bytes" using assms(3) by simp
  have port: "port \<noteq> 3" using assms(1) by auto
  have tag: "bytes_at bytes 0 = Some 0x50" using len assms(2) by (auto simp add: bytes_at_def)
  have "Decoder bytes port = Some (fst (Decoder_fields bytes))"
    using assms(1) port tag by (auto simp add: Decoder_def)
  then have 1: "map_option dom (Decoder bytes port) = Some (selected_fields (bytes ! 1))"
    by (simp add: Decoder_fields_dom [OF len])
  have 2: "Parse_i (snd (Decoder_fields bytes)) = 2 + cursor_advance (bytes ! 1)"
    by (simp add: Decoder_fields_cursor [OF len])
  let ?bs = "[0x50, 0x08, a, b, c, d]"
  have f: "Decoder_fields ?bs =
     ([''t'' \<mapsto> Num (fst (DecodeI16 \<lparr>Parse_bytes = ?bs, Parse_i = 2\<rparr>)),
       ''rh'' \<mapsto> Num (js_div (js_mul (fst (DecodeUflt16 \<lparr>Parse_bytes = ?bs, Parse_i = 4\<rparr>))
                    (Fin 100)) (Fin 65535))],
      \<lparr>Parse_bytes = ?bs, Parse_i = 6\<rparr>)"
    by (simp add: Decoder_fields_unfold read_inc_def bytes_at_def flags_0x08
        Decoder_volts_def Decoder_version_def Decoder_boot_def Decoder_t_rh_def
        Decoder_lux_def Decoder_tap_def case_prod_unfold snd_DecodeI16 snd_DecodeUflt16)
  have 3: "Decoder ?bs port = Some (fst (Decoder_fields ?bs))"
    using assms(1) port by (auto simp add: Decoder_def bytes_at_def)
  show ?thesis using 1 2 3 f by simp
qed

theorem uplink_fields_follow_bitmap_witness:
  "map_option dom (Decoder [0x50, 0x25, 0x10, 0x00, 0x20, 0x00, 0x30, 0x00, 0x07, 0x09] 4)
     = Some {''vBat'', ''vBus'', ''vSys'', ''boot'', ''tap''} \<and>
   Parse_i (snd (Decoder_fields [0x50, 0x25, 0x10, 0x00, 0x20, 0x00, 0x30, 0x00, 0x07, 0x09])) = 9 \<and>
   map_option dom (Decoder [0x50, 0x08, 0x01, 0x00, 0xF8, 0x00] 4) = Some {''t'', ''rh''} \<and>
   Parse_i (snd (Decoder_fields [0x50, 0x08, 0x01, 0x00, 0xF8, 0x00])) = 6"
  using uplink_fields_follow_bitmap
      [where port = 4 and bytes = "[0x50, 0x25, 0x10, 0x00, 0x20, 0x00, 0x30, 0x00, 0x07, 0x09]"
         and a = "0x01" and b = "0x00" and c = "0xF8" and d = "0x00"]
  by (simp add: needed_bytes_def cursor_advance_def selected_fields_def insert_commute)

text \<open>
  Claim C9. When bit 5 of the bitmap is set, the tap block stores the byte at the cursor
  and leaves the cursor where it was, from every state. So the cursor \<open>Decoder\<close> ends
  with counts no byte for the tap field, and the tap field is the byte at that final
  cursor.
\<close>

theorem tap_read_leaves_cursor:
  fixes bytes :: "8 word list"
  assumes "1 < length bytes" and "bit (bytes ! 1) 5"
  shows "(\<forall>st. snd (Decoder_tap (bytes_at bytes 1) st) = snd st \<and>
           fst (Decoder_tap (bytes_at bytes 1) st) =
             (fst st)(''tap'' \<mapsto> of_elem (bytes_at (Parse_bytes (snd st)) (Parse_i (snd st))))) \<and>
         Parse_i (snd (Decoder_fields bytes)) = 2 + cursor_advance (bytes ! 1) \<and>
         fst (Decoder_fields bytes) ''tap'' =
           Some (of_elem (bytes_at bytes (2 + cursor_advance (bytes ! 1))))"
proof -
  let ?flags = "bytes_at bytes 1"
  have fl: "?flags = Some (unat (bytes ! 1))" using assms(1) by (simp add: bytes_at_in)
  have set: "flag_set ?flags 0x20" using assms by (simp add: bytes_at_def flag_bits)
  have blk: "snd (Decoder_tap ?flags st) = snd st \<and>
      fst (Decoder_tap ?flags st) =
        (fst st)(''tap'' \<mapsto> of_elem (bytes_at (Parse_bytes (snd st)) (Parse_i (snd st))))" for st
    using set by (cases st) (simp add: Decoder_tap_def)
  have cur: "Parse_i (snd (Decoder_fields bytes)) = 2 + cursor_advance (bytes ! 1)"
    by (simp add: Decoder_fields_cursor [OF assms(1)])
  let ?st = "Decoder_lux ?flags (Decoder_t_rh ?flags (Decoder_boot ?flags
           (Decoder_version ?flags (Decoder_volts ?flags
              (Map.empty, \<lparr>Parse_bytes = bytes, Parse_i = 2\<rparr>)))))"
  have df: "Decoder_fields bytes = Decoder_tap ?flags ?st"
    by (simp add: Decoder_fields_unfold)
  have "snd ?st = \<lparr>Parse_bytes = bytes, Parse_i = 2 + cursor_advance (bytes ! 1)\<rparr>"
    using assms(1)
    by (simp add: snd_block bytes_at_def flag_bits cursor_advance_def split del: if_split)
  then have "fst (Decoder_tap ?flags ?st) ''tap'' =
      Some (of_elem (bytes_at bytes (2 + cursor_advance (bytes ! 1))))"
    using blk [of ?st] by simp
  then show ?thesis using blk cur df by simp
qed

theorem tap_read_leaves_cursor_witness:
  "Parse_i (snd (Decoder_fields [0x50, 0x24, 0x07, 0x09])) = 3 \<and>
   fst (Decoder_fields [0x50, 0x24, 0x07, 0x09]) ''tap'' = Some (Num (Fin 9)) \<and>
   fst (Decoder_fields [0x50, 0x24, 0x07, 0x09]) ''boot'' = Some (Num (Fin 7))"
proof -
  have "fst (Decoder_fields [0x50, 0x24, 0x07, 0x09]) ''boot'' = Some (Num (Fin 7))"
    by (simp add: Decoder_fields_unfold read_inc_def bytes_at_def flag_set_def js_and_def
        ToNumber_def trunc_def wrap32_def of_elem_def
        Decoder_volts_def Decoder_version_def Decoder_boot_def Decoder_t_rh_def
        Decoder_lux_def Decoder_tap_def)
  then show ?thesis
    using tap_read_leaves_cursor [of "[0x50, 0x24, 0x07, 0x09]"]
    by (simp add: cursor_advance_def bytes_at_def of_elem_def)
qed

section \<open>The dispatch on the port\<close>

text \<open>
  Claim C5. Port 3 goes to \<open>DecodeDownlinkResponse\<close> whatever the buffer holds; a port
  other than 1, 3 and 4 gives \<open>null\<close>; for the ports 1 and 4 a first byte other than
  0x50, or no first byte, gives \<open>null\<close>, and the tag 0x50 runs the uplink blocks.
\<close>

theorem dispatch_on_port:
  "Decoder bytes 3 = Some (DecodeDownlinkResponse bytes) \<and>
   (port \<notin> {1, 3, 4} \<longrightarrow> Decoder bytes port = None) \<and>
   (port \<in> {1, 4} \<and> bytes_at bytes 0 \<noteq> Some 0x50 \<longrightarrow> Decoder bytes port = None) \<and>
   (port \<in> {1, 4} \<and> bytes_at bytes 0 = Some 0x50 \<longrightarrow>
      Decoder bytes port = Some (fst (Decoder_fields bytes)))"
  by (auto simp add: Decoder_def)

theorem dispatch_on_port_witness:
  "Decoder [0x50, 0x04, 0x07] 3 = Some (DecodeDownlinkResponse [0x50, 0x04, 0x07]) \<and>
   Decoder [0x50, 0x04, 0x07] 2 = None \<and>
   Decoder [0x51, 0x04, 0x07] 1 = None \<and>
   Decoder [] 4 = None \<and>
   Decoder [0x50, 0x04, 0x07] 4 = Some (fst (Decoder_fields [0x50, 0x04, 0x07])) \<and>
   fst (Decoder_fields [0x50, 0x04, 0x07]) = [''boot'' \<mapsto> Num (Fin 7)]"
proof -
  have "fst (Decoder_fields [0x50, 0x04, 0x07]) = [''boot'' \<mapsto> Num (Fin 7)]"
    by (simp add: Decoder_fields_unfold read_inc_def bytes_at_def flag_set_def js_and_def
        ToNumber_def trunc_def wrap32_def of_elem_def
        Decoder_volts_def Decoder_version_def Decoder_boot_def Decoder_t_rh_def
        Decoder_lux_def Decoder_tap_def)
  then show ?thesis
    using dispatch_on_port [of "[0x50, 0x04, 0x07]" 2] dispatch_on_port [of "[0x51, 0x04, 0x07]" 1]
      dispatch_on_port [of "[]" 4] dispatch_on_port [of "[0x50, 0x04, 0x07]" 4]
    by (simp add: bytes_at_def)
qed

section \<open>The downlink response\<close>

lemma set_Response_other: "k \<noteq> ''Response'' \<Longrightarrow> set_Response d e k = d k"
  by (simp add: set_Response_def)

lemma set_Response_Response:
  "set_Response d e ''Response'' =
     (if e = Some 0 then Some (Str ''Success'')
      else if e = Some 1 then Some (Str ''Invalid Length'')
      else if e = Some 2 then Some (Str ''Failure'')
      else d ''Response'')"
  by (simp add: set_Response_def)

lemma set_Rev_other: "k \<noteq> ''Rev'' \<Longrightarrow> set_Rev d e k = d k"
  by (simp add: set_Rev_def)

text \<open>
  The commands 0x03 to 0x07 set \<open>ResponseType\<close> and run the status block on the second
  byte; every other first byte, and an empty buffer, leaves the record empty.
\<close>

lemma downlink_3_to_7:
  fixes bytes :: "8 word list"
  assumes "0 < length bytes" and "unat (bytes ! 0) = c" and "c \<in> {3, 4, 5, 6, 7}"
  shows "(\<exists>s. DecodeDownlinkResponse bytes ''ResponseType'' = Some (Str s)) \<and>
         DecodeDownlinkResponse bytes ''Response'' = status_text (bytes_at bytes 1)"
proof -
  have c: "bytes_at bytes 0 = Some c" using assms by (simp add: bytes_at_def)
  consider "c = 3" | "c = 4" | "c = 5" | "c = 6" | "c = 7" using assms(3) by auto
  then show ?thesis
  proof cases
    case 1
    then show ?thesis
      by (simp add: DecodeDownlinkResponse_def read_inc_def c Let_def case_prod_unfold
          set_Response_other set_Response_Response set_Rev_other status_text_def)
  next
    case 2
    then show ?thesis
      by (simp add: DecodeDownlinkResponse_def read_inc_def c Let_def case_prod_unfold
          set_Response_other set_Response_Response status_text_def)
  next
    case 3
    then show ?thesis
      by (simp add: DecodeDownlinkResponse_def read_inc_def c Let_def case_prod_unfold
          set_Response_other set_Response_Response status_text_def)
  next
    case 4
    then show ?thesis
      by (simp add: DecodeDownlinkResponse_def read_inc_def c Let_def case_prod_unfold
          set_Response_other set_Response_Response status_text_def)
  next
    case 5
    then show ?thesis
      by (simp add: DecodeDownlinkResponse_def read_inc_def c Let_def case_prod_unfold
          set_Response_other set_Response_Response status_text_def)
  qed
qed

lemma downlink_empty:
  fixes bytes :: "8 word list"
  assumes "bytes_at bytes 0 \<notin> {Some 3, Some 4, Some 5, Some 6, Some 7}"
  shows "DecodeDownlinkResponse bytes = Map.empty"
  using assms
  by (simp add: DecodeDownlinkResponse_def read_inc_def Let_def)

text \<open>
  Claim C2, as the code has it. The claim asks for an UnrecognizedCommand failure on a
  command byte outside 0x01 to 0x07. \<open>DecodeDownlinkResponse\<close> has no failure: its
  chain of tests ends without an \<open>else\<close>, so such a byte returns the empty record, and
  \<open>Decoder\<close> at port 3 returns it as the commands 0x01 and 0x02 do.
\<close>

theorem unrecognized_command_gives_empty_record:
  fixes bytes :: "8 word list"
  assumes "0 < length bytes" and "unat (bytes ! 0) \<notin> {1, 2, 3, 4, 5, 6, 7}"
  shows "DecodeDownlinkResponse bytes = Map.empty \<and>
         Decoder bytes 3 = Some Map.empty \<and>
         Decoder bytes 3 = Decoder [0x01] 3 \<and>
         Decoder bytes 3 = Decoder [0x02] 3"
proof -
  have "bytes_at bytes 0 \<notin> {Some 3, Some 4, Some 5, Some 6, Some 7}"
    using assms by (auto simp add: bytes_at_def)
  then have "DecodeDownlinkResponse bytes = Map.empty" by (rule downlink_empty)
  moreover have "DecodeDownlinkResponse [0x01] = Map.empty"
    by (rule downlink_empty) (simp add: bytes_at_def)
  moreover have "DecodeDownlinkResponse [0x02] = Map.empty"
    by (rule downlink_empty) (simp add: bytes_at_def)
  ultimately show ?thesis by (simp add: Decoder_def)
qed

theorem unrecognized_command_gives_empty_record_witness:
  "Decoder [0x08, 0x00] 3 = Some Map.empty \<and> Decoder [0x08, 0x00] 3 = Decoder [0x01] 3"
  using unrecognized_command_gives_empty_record [of "[0x08, 0x00]"] by auto

text \<open>
  Claim C2 as stated fails on the buffer 0x08 at port 3: the decode does not fail, and
  its result is the result of the recognized command 0x01.
\<close>

theorem unrecognized_command_counterexample:
  "Decoder [0x08] 3 \<noteq> None \<and> Decoder [0x08] 3 = Some Map.empty \<and>
   Decoder [0x08] 3 = Decoder [0x01] 3"
proof -
  have "DecodeDownlinkResponse [0x08] = Map.empty"
    by (rule downlink_empty) (simp add: bytes_at_def)
  moreover have "DecodeDownlinkResponse [0x01] = Map.empty"
    by (rule downlink_empty) (simp add: bytes_at_def)
  ultimately show ?thesis by (simp add: Decoder_def)
qed

text \<open>
  Claim C7, as the code has it. For the commands 0x03 to 0x07 the record has a
  \<open>ResponseType\<close> string, and its \<open>Response\<close> is the text of the status byte: present
  for the status 0, 1 and 2, absent for any other status and for a missing status byte.
  For the commands 0x01 and 0x02, whose branches are empty, the record is empty.
\<close>

theorem recognized_command_record:
  fixes bytes :: "8 word list"
  assumes "0 < length bytes"
  shows "(unat (bytes ! 0) \<in> {3, 4, 5, 6, 7} \<longrightarrow>
           (\<exists>s. DecodeDownlinkResponse bytes ''ResponseType'' = Some (Str s)) \<and>
           DecodeDownlinkResponse bytes ''Response'' = status_text (bytes_at bytes 1)) \<and>
         (unat (bytes ! 0) \<in> {1, 2} \<longrightarrow> DecodeDownlinkResponse bytes = Map.empty)"
proof -
  have "DecodeDownlinkResponse bytes = Map.empty" if "unat (bytes ! 0) \<in> {1, 2}"
  proof -
    have "bytes_at bytes 0 \<notin> {Some 3, Some 4, Some 5, Some 6, Some 7}"
      using assms that by (auto simp add: bytes_at_def)
    then show ?thesis by (rule downlink_empty)
  qed
  then show ?thesis using downlink_3_to_7 [OF assms refl] by blast
qed

theorem recognized_command_record_witness:
  "(\<exists>s. DecodeDownlinkResponse [0x04, 0x01] ''ResponseType'' = Some (Str s)) \<and>
   DecodeDownlinkResponse [0x04, 0x01] ''Response'' = Some (Str ''Invalid Length'') \<and>
   DecodeDownlinkResponse [0x07, 0x09, 0, 0, 0, 60] ''Response'' = None \<and>
   DecodeDownlinkResponse [0x02, 0x00] = Map.empty"
  using recognized_command_record [of "[0x04, 0x01]"]
    recognized_command_record [of "[0x07, 0x09, 0, 0, 0, 60]"]
    recognized_command_record [of "[0x02, 0x00]"]
  by (simp add: bytes_at_def status_text_def)

text \<open>
  Claim C7 as stated fails on the commands 0x01 and 0x02, which are recognized and
  leave no \<open>ResponseType\<close> in the record.
\<close>

theorem recognized_command_counterexample:
  "DecodeDownlinkResponse [0x01] ''ResponseType'' = None \<and>
   DecodeDownlinkResponse [0x02] ''ResponseType'' = None"
proof -
  have "DecodeDownlinkResponse [0x01] = Map.empty"
    by (rule downlink_empty) (simp add: bytes_at_def)
  moreover have "DecodeDownlinkResponse [0x02] = Map.empty"
    by (rule downlink_empty) (simp add: bytes_at_def)
  ultimately show ?thesis by simp
qed

section \<open>Rounding to a double\<close>

text \<open>
  With the exponent of a number known, \<open>binade\<close> finds it, and the rounding is the
  nearest multiple of the weight of the last bit.
\<close>

lemma pow2_less_iff: "(2::real) powi a < 2 powi b \<longleftrightarrow> a < b"
proof
  assume "(2::real) powi a < 2 powi b"
  show "a < b"
  proof (rule ccontr)
    assume "\<not> a < b"
    then have "b \<le> a" by simp
    then have "(2::real) powi b \<le> 2 powi a" by (intro power_int_increasing) simp_all
    with \<open>(2::real) powi a < 2 powi b\<close> show False by simp
  qed
next
  assume "a < b"
  then show "(2::real) powi a < 2 powi b" by (intro power_int_strict_increasing) simp_all
qed

lemma binade_eq:
  assumes "2 powi k \<le> x" and "x < 2 powi (k + 1)" and "\<bar>k - e\<bar> \<le> int n"
  shows "binade n e x = k"
  using assms(3)
proof (induction n arbitrary: e)
  case 0
  then show ?case by simp
next
  case (Suc n)
  show ?case
  proof (cases "2 powi (e + 1) \<le> x")
    case True
    then have "(2::real) powi (e + 1) < 2 powi (k + 1)" using assms(2) by simp
    then have "e < k" by (simp add: pow2_less_iff)
    then have "\<bar>k - (e + 1)\<bar> \<le> int n" using Suc.prems by simp
    then show ?thesis using True Suc.IH by simp
  next
    case False
    show ?thesis
    proof (cases "x < 2 powi e")
      case True
      then have "(2::real) powi k < 2 powi e" using assms(1) by simp
      then have "k < e" by (simp add: pow2_less_iff)
      then have "\<bar>k - (e - 1)\<bar> \<le> int n" using Suc.prems by simp
      then show ?thesis using True False Suc.IH by simp
    next
      case ge: False
      have "(2::real) powi e < 2 powi (k + 1)" using ge assms(2) by simp
      then have 1: "e < k + 1" by (simp add: pow2_less_iff)
      have "(2::real) powi k < 2 powi (e + 1)" using False assms(1) by simp
      then have 2: "k < e + 1" by (simp add: pow2_less_iff)
      show ?thesis using ge False 1 2 by simp
    qed
  qed
qed

lemma round_double_at:
  assumes "2 powi k \<le> \<bar>x\<bar>" and "\<bar>x\<bar> < 2 powi (k + 1)" and "\<bar>k\<bar> \<le> 2200"
  shows "round_double x = of_int (round_even (x / 2 powi (k - 52))) * 2 powi (k - 52)"
proof -
  have "binade 2200 0 \<bar>x\<bar> = k" using assms by (intro binade_eq) simp_all
  moreover have "x \<noteq> 0"
  proof
    assume "x = 0"
    then have "(2::real) powi k \<le> 0" using assms(1) by simp
    moreover have "0 < (2::real) powi k" by simp
    ultimately show False by simp
  qed
  ultimately show ?thesis by (simp add: round_double_def Let_def)
qed

lemma round_even_of_int: "round_even (of_int z) = z"
  by (simp add: round_even_def)

lemma round_even_le: "y \<le> of_int z \<Longrightarrow> round_even y \<le> z"
proof -
  assume a: "y \<le> of_int z"
  have f: "\<lfloor>y\<rfloor> \<le> z" using a by (simp add: floor_le_iff) 
  show ?thesis
  proof (cases "y = of_int z")
    case True
    then show ?thesis by (simp add: round_even_of_int)
  next
    case False
    then have "y < of_int z" using a by simp
    then have "\<lfloor>y\<rfloor> < z" by (simp add: floor_less_iff)
    then show ?thesis by (simp add: round_even_def Let_def)
  qed
qed

lemma round_even_nonneg: "0 \<le> y \<Longrightarrow> 0 \<le> round_even y"
proof -
  assume "0 \<le> y"
  then have "0 \<le> \<lfloor>y\<rfloor>" by simp
  then show ?thesis by (simp add: round_even_def Let_def)
qed


text \<open>A number of at most 53 significant bits is a double: rounding leaves it.\<close>

lemma round_double_dyadic:
  fixes n :: nat and j :: int
  assumes "0 < n" and "n < 2 ^ 53" and "\<bar>j\<bar> \<le> 2000"
  shows "round_double (real n * 2 powi j) = real n * 2 powi j"
proof -
  obtain b where b: "2 ^ b \<le> n" "n < 2 ^ (b + 1)"
    using ex_power_ivl1 [of 2 n] assms(1) by auto
  have lt: "(2::nat) ^ b < 2 ^ 53" using b(1) assms(2) by (rule le_less_trans)
  have b53: "b < 53" by (rule power_less_imp_less_exp [where a = "2::nat"]) (simp, rule lt)
  let ?x = "real n * 2 powi j"
  let ?k = "int b + j"
  have pos: "0 < (2::real) powi i" for i by simp
  have "(2::real) powi ?k = 2 ^ b * 2 powi j" by (simp add: power_int_add)
  also have "\<dots> \<le> real n * 2 powi j"
  proof -
    have "real (2 ^ b) \<le> real n" using b(1) by (simp only: of_nat_le_iff)
    then show ?thesis by (intro mult_right_mono) simp_all
  qed
  finally have lo: "2 powi ?k \<le> \<bar>?x\<bar>" by simp
  have "real n < real (2 ^ (b + 1))" using b(2) by (simp only: of_nat_less_iff)
  then have "real n * 2 powi j < real (2 ^ (b + 1)) * 2 powi j"
    by (intro mult_strict_right_mono) simp_all
  also have "real (2 ^ (b + 1)) * 2 powi j = 2 powi (?k + 1)"
    by (simp add: power_int_add)
  finally have hi: "\<bar>?x\<bar> < 2 powi (?k + 1)" by simp
  have rng: "\<bar>?k\<bar> \<le> 2200" using assms(3) b53 by simp
  have rd: "round_double ?x = of_int (round_even (?x / 2 powi (?k - 52))) * 2 powi (?k - 52)"
    using lo hi rng by (rule round_double_at)
  define d where "d = 52 - b"
  have jd: "j = (?k - 52) + int d" using b53 by (simp add: d_def)
  have "2 powi j = (2::real) powi (?k - 52) * 2 ^ d"
    by (subst jd) (simp add: power_int_add)
  then have q: "?x / 2 powi (?k - 52) = of_int (int n * 2 ^ d)" by simp
  have "round_double ?x = of_int (int n * 2 ^ d) * 2 powi (?k - 52)"
    unfolding rd q round_even_of_int ..
  also have "\<dots> = real n * (2 powi (?k - 52) * 2 ^ d)" by simp
  also have "2 powi (?k - 52) * 2 ^ d = (2::real) powi j"
    by (subst (2) jd) (simp add: power_int_add)
  finally show ?thesis .
qed

text \<open>Rounding does not pass a double above the number.\<close>

lemma round_double_le:
  fixes N :: nat and q l :: int
  assumes "2 powi l \<le> y" and "y \<le> real N * 2 powi q" and "N < 2 ^ 53"
    and "q \<le> 2000" and "- 2200 \<le> l"
  shows "round_double y \<le> real N * 2 powi q"
proof -
  have ypos: "0 < y"
  proof -
    have "0 < (2::real) powi l" by simp
    then show ?thesis using assms(1) by linarith
  qed
  define k where "k = \<lfloor>log 2 y\<rfloor>"
  have kk: "2 powr (of_int k) \<le> y \<and> y < 2 powr (of_int k + 1)"
    using floor_log_eq_powr_iff [of y 2 k] ypos by (simp add: k_def)
  have p1: "2 powr real_of_int k = (2::real) powi k"
    by (rule powr_real_of_int') simp_all
  have "2 powr (real_of_int k + 1) = 2 powr real_of_int (k + 1)" by simp
  also have "\<dots> = (2::real) powi (k + 1)" by (rule powr_real_of_int') simp_all
  finally have p2: "2 powr (real_of_int k + 1) = (2::real) powi (k + 1)" .
  have lo: "2 powi k \<le> \<bar>y\<bar>" and hi: "\<bar>y\<bar> < 2 powi (k + 1)"
    using kk ypos unfolding p1 p2 by simp_all
  have "(2::real) powi l < 2 powi (k + 1)" using assms(1) hi ypos by simp
  then have "l < k + 1" by (simp add: pow2_less_iff)
  then have k1: "- 2200 < k + 1" using assms(5) by simp
  have "real N < 2 ^ 53" using assms(3) by (metis of_nat_less_iff of_nat_numeral of_nat_power)
  then have "real N * 2 powi q < 2 ^ 53 * 2 powi q" by (intro mult_strict_right_mono) simp_all
  also have "\<dots> = 2 powi (q + 53)" by (simp add: power_int_add)
  finally have "(2::real) powi k < 2 powi (q + 53)" using lo assms(2) ypos by simp
  then have k2: "k < q + 53" by (simp add: pow2_less_iff)
  have rng: "\<bar>k\<bar> \<le> 2200" using k1 k2 assms(4) by simp
  have rd: "round_double y = of_int (round_even (y / 2 powi (k - 52))) * 2 powi (k - 52)"
    using lo hi rng by (rule round_double_at)
  define d where "d = nat (q - (k - 52))"
  have qd: "q = (k - 52) + int d" using k2 by (simp add: d_def)
  have pw: "2 powi q = (2::real) powi (k - 52) * 2 ^ d"
    by (subst qd) (simp add: power_int_add)
  have "y / 2 powi (k - 52) \<le> real N * 2 powi q / 2 powi (k - 52)"
    using assms(2) by (intro divide_right_mono) simp_all
  also have "\<dots> = of_int (int N * 2 ^ d)" by (simp add: pw)
  finally have "round_even (y / 2 powi (k - 52)) \<le> int N * 2 ^ d" by (rule round_even_le)
  then have "real_of_int (round_even (y / 2 powi (k - 52))) \<le> real_of_int (int N * 2 ^ d)"
    by (simp only: of_int_le_iff)
  then have "round_double y \<le> real_of_int (int N * 2 ^ d) * 2 powi (k - 52)"
    unfolding rd by (intro mult_right_mono) simp_all
  also have "\<dots> = real N * 2 powi q" by (simp add: pw)
  finally show ?thesis .
qed

lemma round_double_nonneg:
  assumes "0 \<le> y"
  shows "0 \<le> round_double y"
proof -
  have "0 \<le> y / 2 powi q" for q using assms by simp
  then have "0 \<le> round_even (y / 2 powi q)" for q by (rule round_even_nonneg)
  then show ?thesis by (simp add: round_double_def Let_def)
qed

section \<open>Products, quotients and bit fields\<close>

lemma js_mul_Fin: "0 \<le> x \<Longrightarrow> 0 \<le> y \<Longrightarrow> js_mul (Fin x) (Fin y) = Fin (x * y)"
  by (auto simp add: js_mul_def zero_of_def)

lemma js_div_zero: "0 < d \<Longrightarrow> js_div (Fin 0) (Fin d) = Fin 0"
  by (simp add: js_div_def zero_of_def)

lemma js_div_pos:
  "0 < x \<Longrightarrow> 0 < d \<Longrightarrow> js_div (Fin x) (Fin d) = Fin (round_double (x / d))"
  by (simp add: js_div_def)

text \<open>The quotient of an integer below 2 to the 53 by a power of two is exact.\<close>

lemma js_div_pow2:
  fixes n :: int
  assumes "0 \<le> n" and "n < 2 ^ 53" and "k \<le> 2000"
  shows "js_div (Fin (of_int n)) (Fin (2 ^ k)) = Fin (of_int n / 2 ^ k)"
proof (cases "n = 0")
  case True
  then show ?thesis by (simp add: js_div_zero)
next
  case False
  then have pos: "0 < n" using assms(1) by simp
  have "nat n < nat (2 ^ 53)" using assms(1,2) by (simp only: nat_less_eq_zless)
  then have lt: "nat n < 2 ^ 53" by simp
  have "round_double (real (nat n) * 2 powi (- int k)) = real (nat n) * 2 powi (- int k)"
    using pos lt assms(3) by (intro round_double_dyadic) simp_all
  moreover have "real (nat n) * 2 powi (- int k) = real_of_int n / 2 ^ k"
    using pos by (simp add: power_int_minus field_simps)
  ultimately have "round_double (real_of_int n / 2 ^ k) = real_of_int n / 2 ^ k" by simp
  then show ?thesis using pos by (simp add: js_div_pos)
qed

lemma Math_pow2_pos: "0 < Math_pow2 k"
  by (simp add: Math_pow2_def)

lemma Math_pow2_le_1: "k \<le> 0 \<Longrightarrow> Math_pow2 k \<le> 1"
  by (auto simp add: Math_pow2_def field_simps)

lemma js_mul_Fin_nz: "x \<noteq> 0 \<Longrightarrow> y \<noteq> 0 \<Longrightarrow> js_mul (Fin x) (Fin y) = Fin (x * y)"
  by (simp add: js_mul_def)

lemma js_mul_NegZero_pos: "0 < y \<Longrightarrow> js_mul NegZero (Fin y) = NegZero"
  by (simp add: js_mul_def zero_of_def)

lemma js_mul_minus_one_zero: "js_mul (Fin (- 1)) (Fin 0) = NegZero"
  by (simp add: js_mul_def zero_of_def)

lemma Math_pow2_powi: "Math_pow2 k = 2 powi k"
  by (simp add: Math_pow2_def power_int_def power_one_over [symmetric] inverse_eq_divide)

text \<open>The masks and shifts of the codecs, as quotients and remainders.\<close>

lemma and_4095: "0 \<le> (v::int) \<Longrightarrow> v AND 4095 = v mod 4096"
proof -
  have "v AND mask 12 = v mod 2 ^ 12" by (simp add: take_bit_eq_mask [symmetric] take_bit_eq_mod)
  then show ?thesis by (simp add: mask_eq_exp_minus_1)
qed

lemma and_65535: "(v::int) AND 65535 = v mod 65536"
proof -
  have "v AND mask 16 = v mod 2 ^ 16" by (simp add: take_bit_eq_mask [symmetric] take_bit_eq_mod)
  then show ?thesis by (simp add: mask_eq_exp_minus_1)
qed

lemma and_127: "(v::int) AND 127 = v mod 128"
proof -
  have "v AND mask 7 = v mod 2 ^ 7" by (simp add: take_bit_eq_mask [symmetric] take_bit_eq_mod)
  then show ?thesis by (simp add: mask_eq_exp_minus_1)
qed

lemma exp_field: "drop_bit 16 ((v::int) AND 0x7F0000) = (v div 65536) mod 128"
proof -
  have "drop_bit 16 (v AND 0x7F0000) = drop_bit 16 v AND drop_bit 16 (0x7F0000 :: int)"
    by (rule drop_bit_and)
  also have "drop_bit 16 (0x7F0000 :: int) = 127" by (simp add: drop_bit_eq_div)
  finally show ?thesis by (simp add: and_127 drop_bit_eq_div)
qed

lemma sign_field: "((v::int) AND 0x800000 \<noteq> 0) = odd (v div 8388608)"
proof -
  have "(v AND 2 ^ 23 = 0) = (\<not> bit v 23)" by (rule and_exp_eq_0_iff_not_bit)
  then show ?thesis by (simp add: bit_iff_odd)
qed

lemma fields_of_raw:
  fixes s E M :: int
  assumes "s = 0 \<or> s = 1" "0 \<le> E" "E < 128" "0 \<le> M" "M < 65536"
  defines "v \<equiv> s * 8388608 + E * 65536 + M"
  shows "v mod 65536 = M" "(v div 65536) mod 128 = E" "odd (v div 8388608) = (s = 1)"
    "0 \<le> v" "v < 2147483648"
proof -
  have v1: "v = M + (s * 128 + E) * 65536" by (simp add: v_def algebra_simps)
  have v2: "v = (E * 65536 + M) + s * 8388608" by (simp add: v_def)
  have r: "0 \<le> E * 65536 + M" "E * 65536 + M < 8388608" using assms(2-5) by simp_all
  have "v mod 65536 = M mod 65536" unfolding v1 by (rule mod_mult_self1)
  then show "v mod 65536 = M" using assms(4,5) by simp
  have "v div 65536 = (s * 128 + E) + M div 65536" unfolding v1 by (rule div_mult_self1) simp
  then have "v div 65536 = s * 128 + E" using assms(4,5) by simp
  then have "(v div 65536) mod 128 = (E + s * 128) mod 128" by (simp add: add.commute)
  also have "\<dots> = E mod 128" by (rule mod_mult_self1)
  finally show "(v div 65536) mod 128 = E" using assms(2,3) by simp
  have "v div 8388608 = s + (E * 65536 + M) div 8388608"
    unfolding v2 by (rule div_mult_self1) simp
  then have "v div 8388608 = s" using r by simp
  then show "odd (v div 8388608) = (s = 1)" using assms(1) by auto
  show "0 \<le> v" using assms(1) r by (auto simp add: v_def)
  show "v < 2147483648" using assms(1) r by (auto simp add: v_def)
qed

section \<open>The humidity\<close>

text \<open>
  \<open>DecodeUflt16\<close> is the 12-bit mantissa over 4096 times a power of two with an
  exponent from -15 to 0, or 0 on a short buffer: at most 4095/4096.
\<close>

lemma DecodeUflt16_range:
  "\<exists>u. fst (DecodeUflt16 P) = Fin u \<and> (u = 0 \<or> 2 powi (- 27) \<le> u) \<and> u \<le> 4095 / 4096"
proof (cases "Parse_i P + 1 < length (Parse_bytes P)")
  case False
  then have "fst (DecodeUflt16 P) = Fin 0" by (simp add: DecodeUflt16_short)
  then show ?thesis by simp
next
  case True
  define v where "v = uint (Parse_bytes P ! Parse_i P) * 256 + uint (Parse_bytes P ! (Parse_i P + 1))"
  have b: "0 \<le> uint (Parse_bytes P ! Parse_i P)" "uint (Parse_bytes P ! Parse_i P) < 256"
      "0 \<le> uint (Parse_bytes P ! (Parse_i P + 1))" "uint (Parse_bytes P ! (Parse_i P + 1)) < 256"
    using uint_bounded [of "Parse_bytes P ! Parse_i P"]
      uint_bounded [of "Parse_bytes P ! (Parse_i P + 1)"] by simp_all
  have v: "0 \<le> v" "v < 65536" using b by (simp_all add: v_def)
  have raw: "DecodeU16 P = (Int32 v, P\<lparr>Parse_i := Parse_i P + 2\<rparr>)"
    using DecodeU16_in [OF True] by (simp add: v_def)
  have ti: "ToInt32 (Int32 v) = v" using v by (simp add: ToInt32_Int32)
  define e where "e = v div 4096"
  define m where "m = v mod 4096"
  have e: "0 \<le> e" "e \<le> 15" using v by (simp_all add: e_def)
  have m: "0 \<le> m" "m \<le> 4095" using v by (simp_all add: m_def)
  have sar: "js_sar (Int32 v) 12 = e" by (simp add: js_sar_def ti drop_bit_eq_div e_def)
  have an: "js_and (Int32 v) 0xFFF = m" using v by (simp add: js_and_def ti and_4095 m_def)
  have mant: "js_div (Int32 m) (Fin 4096) = Fin (real_of_int m / 4096)"
    using m js_div_pow2 [of m 12] by (simp add: Int32_def)
  have p: "0 < Math_pow2 (e - 15)" "Math_pow2 (e - 15) \<le> 1"
    using e by (simp_all add: Math_pow2_pos Math_pow2_le_1)
  have val: "fst (DecodeUflt16 P) = Fin (real_of_int m / 4096 * Math_pow2 (e - 15))"
    using m p by (simp add: DecodeUflt16_def raw sar an mant js_mul_Fin)
  have "real_of_int m / 4096 * Math_pow2 (e - 15) \<le> real_of_int m / 4096 * 1"
    using m p by (intro mult_left_mono) simp_all
  also have "\<dots> \<le> 4095 / 4096" using m by simp
  finally have up: "real_of_int m / 4096 * Math_pow2 (e - 15) \<le> 4095 / 4096" .
  have lo: "2 powi (- 27) \<le> real_of_int m / 4096 * Math_pow2 (e - 15)" if "m \<noteq> 0"
  proof -
    have "1 \<le> m" using that m(1) by simp
    then have m1: "(2::real) powi (- 12) \<le> real_of_int m / 4096"
      by (simp add: power_int_minus field_simps)
    have "(2::real) powi (- 15) \<le> 2 powi (e - 15)"
      using e(1) by (intro power_int_increasing) simp_all
    then have p1: "(2::real) powi (- 15) \<le> Math_pow2 (e - 15)" by (simp only: Math_pow2_powi)
    have "(2::real) powi (- 27) = 2 powi (- 12) * 2 powi (- 15)"
      by (simp add: power_int_minus field_simps)
    also have "\<dots> \<le> real_of_int m / 4096 * Math_pow2 (e - 15)"
      using m1 p1 by (intro mult_mono) simp_all
    finally show ?thesis .
  qed
  show ?thesis
  proof (cases "m = 0")
    case True
    then show ?thesis using val by simp
  next
    case False
    then show ?thesis using val up lo by blast
  qed
qed

lemma Decoder_lux_other: "k \<noteq> ''lux'' \<Longrightarrow> fst (Decoder_lux flags st) k = fst st k"
  by (cases st) (simp add: Decoder_lux_def case_prod_unfold Let_def)

lemma Decoder_tap_other: "k \<noteq> ''tap'' \<Longrightarrow> fst (Decoder_tap flags st) k = fst st k"
  by (cases st) (simp add: Decoder_tap_def)

lemma Decoder_t_rh_rh:
  "flag_set flags 0x8 \<Longrightarrow> fst (Decoder_t_rh flags st) ''rh'' =
     Some (Num (js_div (js_mul (fst (DecodeUflt16 (snd (DecodeI16 (snd st))))) (Fin 100)) (Fin 65535)))"
  by (cases st) (simp add: Decoder_t_rh_def case_prod_unfold Let_def)

text \<open>
  The double nearest to the exact bound 100 * (4095/4096) / 65535 = 6825/4473856 lies
  above it.
\<close>

lemma rh_max: "round_double (6825 / 4473856) = 7035263780454025 / 2 ^ 62"
proof -
  have "round_double (6825 / 4473856) =
      of_int (round_even ((6825 / 4473856) / 2 powi (- 10 - 52))) * 2 powi (- 10 - 52)"
    by (rule round_double_at) (simp_all add: power_int_minus field_simps)
  also have "round_even ((6825 / 4473856) / 2 powi (- 10 - 52)) = 7035263780454025"
    by (simp add: round_even_def power_int_minus field_simps)
  finally show ?thesis by (simp add: power_int_minus field_simps)
qed

lemma Decoder_fields_0x08:
  fixes a b c d :: "8 word"
  shows "fst (Decoder_fields [0x50, 0x08, a, b, c, d]) =
     [''t'' \<mapsto> Num (fst (DecodeI16 \<lparr>Parse_bytes = [0x50, 0x08, a, b, c, d], Parse_i = 2\<rparr>)),
      ''rh'' \<mapsto> Num (js_div (js_mul
          (fst (DecodeUflt16 \<lparr>Parse_bytes = [0x50, 0x08, a, b, c, d], Parse_i = 4\<rparr>))
          (Fin 100)) (Fin 65535))]"
  by (simp add: Decoder_fields_unfold read_inc_def bytes_at_def flags_0x08
      Decoder_volts_def Decoder_version_def Decoder_boot_def Decoder_t_rh_def
      Decoder_lux_def Decoder_tap_def case_prod_unfold snd_DecodeI16 snd_DecodeUflt16)

text \<open>
  Claim C10 as stated fails on the humidity bytes 0xFF 0xFF: the float is 4095/4096, and
  the division of 99.97558... by 65535 rounds up, to 7035263780454025 / 2 ^ 62, which
  is above 100 * (4095/4096) / 65535 (by about 1.2e-21).
\<close>

theorem rh_bound_counterexample:
  "Decoder [0x50, 0x08, 0x01, 0x00, 0xFF, 0xFF] 1 =
     Some [''t'' \<mapsto> Num (Fin 256), ''rh'' \<mapsto> Num (Fin (7035263780454025 / 2 ^ 62))] \<and>
   (100 * (4095 / 4096) / 65535 :: real) < 7035263780454025 / 2 ^ 62"
proof -
  let ?bs = "[0x50, 0x08, 0x01, 0x00, 0xFF, 0xFF] :: 8 word list"
  have t: "fst (DecodeI16 \<lparr>Parse_bytes = ?bs, Parse_i = 2\<rparr>) = Fin 256"
    by (simp add: DecodeI16_def DecodeU16_def bytes_at_def js_shl_def js_and_def
        ToNumber_def Int32_def trunc_def wrap32_def push_bit_eq_mult)
  have raw: "DecodeU16 \<lparr>Parse_bytes = ?bs, Parse_i = 4\<rparr> =
      (Fin 65535, \<lparr>Parse_bytes = ?bs, Parse_i = 6\<rparr>)"
    by (simp add: DecodeU16_def bytes_at_def js_shl_def
        ToNumber_def Int32_def trunc_def wrap32_def push_bit_eq_mult)
  have mant: "js_div (Fin 4095) (Fin 4096) = Fin (4095 / 4096)"
    using js_div_pow2 [of 4095 12] by simp
  have u: "fst (DecodeUflt16 \<lparr>Parse_bytes = ?bs, Parse_i = 4\<rparr>) = Fin (4095 / 4096)"
    by (simp add: DecodeUflt16_def raw js_sar_def js_and_def Int32_def trunc_def wrap32_def
        drop_bit_eq_div mant js_mul_Fin Math_pow2_def)
  have "js_div (js_mul (Fin (4095 / 4096)) (Fin 100)) (Fin 65535) =
      Fin (round_double (6825 / 4473856))"
    by (simp add: js_mul_Fin js_div_pos)
  then have rh: "js_div (js_mul (Fin (4095 / 4096)) (Fin 100)) (Fin 65535) =
      Fin (7035263780454025 / 2 ^ 62)"
    by (simp only: rh_max)
  have "Decoder ?bs 1 = Some (fst (Decoder_fields ?bs))"
    by (simp add: Decoder_def bytes_at_def)
  then have "Decoder ?bs 1 =
      Some [''t'' \<mapsto> Num (Fin 256), ''rh'' \<mapsto> Num (Fin (7035263780454025 / 2 ^ 62))]"
    by (simp only: Decoder_fields_0x08 t u rh)
  moreover have "(100 * (4095 / 4096) / 65535 :: real) < 7035263780454025 / 2 ^ 62"
    by simp
  ultimately show ?thesis by blast
qed

text \<open>
  Claim C10, as the code has it. For the ports 1 and 4, the format tag 0x50, bit 3 of
  the bitmap set and a buffer that holds the bytes of every selected group, the \<open>rh\<close> of
  the record is a finite number from 0 to 7035263780454025 / 2 ^ 62, the double nearest
  to 100 * (4095/4096) / 65535, about 0.0015: the float is below 1 and the scaling
  divides it by 655.35.
\<close>

theorem rh_is_below_percent_range:
  fixes bytes :: "8 word list"
  assumes "port = 1 \<or> port = 4"
    and "bytes ! 0 = 0x50"
    and "bit (bytes ! 1) 3"
    and "2 + needed_bytes (bytes ! 1) \<le> length bytes"
  shows "\<exists>decoded r. Decoder bytes port = Some decoded \<and> decoded ''rh'' = Some (Num (Fin r)) \<and>
           0 \<le> r \<and> r \<le> 7035263780454025 / 2 ^ 62"
proof -
  have len: "1 < length bytes" using assms(4) by simp
  have port: "port \<noteq> 3" using assms(1) by auto
  have tag: "bytes_at bytes 0 = Some 0x50" using len assms(2) by (auto simp add: bytes_at_def)
  have d: "Decoder bytes port = Some (fst (Decoder_fields bytes))"
    using assms(1) port tag by (auto simp add: Decoder_def)
  let ?flags = "bytes_at bytes 1"
  have set: "flag_set ?flags 0x8" using len assms(3) by (simp add: bytes_at_def flag_bits)
  let ?st = "Decoder_boot ?flags (Decoder_version ?flags (Decoder_volts ?flags
              (Map.empty, \<lparr>Parse_bytes = bytes, Parse_i = 2\<rparr>)))"
  obtain u where u: "fst (DecodeUflt16 (snd (DecodeI16 (snd ?st)))) = Fin u"
      "u = 0 \<or> 2 powi (- 27) \<le> u" "u \<le> 4095 / 4096"
    using DecodeUflt16_range [of "snd (DecodeI16 (snd ?st))"] by blast
  have "fst (Decoder_fields bytes) ''rh'' = fst (Decoder_t_rh ?flags ?st) ''rh''"
    by (simp add: Decoder_fields_unfold Decoder_lux_other Decoder_tap_other)
  also have "\<dots> = Some (Num (js_div (js_mul (Fin u) (Fin 100)) (Fin 65535)))"
    using Decoder_t_rh_rh [OF set, of ?st] u(1) by simp
  finally have rh: "fst (Decoder_fields bytes) ''rh'' =
      Some (Num (js_div (js_mul (Fin u) (Fin 100)) (Fin 65535)))" .
  have "\<exists>r. js_div (js_mul (Fin u) (Fin 100)) (Fin 65535) = Fin r \<and>
      0 \<le> r \<and> r \<le> 7035263780454025 / 2 ^ 62"
  proof (cases "u = 0")
    case True
    then show ?thesis by (simp add: js_mul_Fin js_div_zero)
  next
    case False
    then have lo: "2 powi (- 27) \<le> u" using u(2) by simp
    have upos: "0 < u"
    proof -
      have "0 < (2::real) powi (- 27)" by simp
      then show ?thesis using lo by linarith
    qed
    let ?y = "u * 100 / 65535"
    have q: "js_div (js_mul (Fin u) (Fin 100)) (Fin 65535) = Fin (round_double ?y)"
      using upos by (simp add: js_mul_Fin js_div_pos)
    have "(2::real) powi (- 37) = 2 powi (- 27) * 2 powi (- 10)"
      by (simp add: power_int_minus field_simps)
    also have "\<dots> \<le> u * (100 / 65535)"
      using lo by (intro mult_mono) (simp_all add: power_int_minus)
    finally have ylo: "2 powi (- 37) \<le> ?y" by simp
    have "?y \<le> 4095 / 4096 * 100 / 65535" using u(3) by simp
    also have "\<dots> \<le> real 7035263780454025 * 2 powi (- 62)"
      by (simp add: power_int_minus)
    finally have yhi: "?y \<le> real 7035263780454025 * 2 powi (- 62)" .
    have "round_double ?y \<le> real 7035263780454025 * 2 powi (- 62)"
      using ylo yhi by (rule round_double_le) simp_all
    then have "round_double ?y \<le> 7035263780454025 / 2 ^ 62"
      by (simp add: power_int_minus field_simps)
    moreover have "0 \<le> round_double ?y" using upos by (intro round_double_nonneg) simp
    ultimately show ?thesis using q by blast
  qed
  then show ?thesis using d rh by auto
qed

theorem rh_is_below_percent_range_witness:
  "\<exists>decoded r. Decoder [0x50, 0x08, 0x01, 0x00, 0xF8, 0x00] 4 = Some decoded \<and>
      decoded ''rh'' = Some (Num (Fin r)) \<and> 0 \<le> r \<and> r \<le> 7035263780454025 / 2 ^ 62"
  using rh_is_below_percent_range [of 4 "[0x50, 0x08, 0x01, 0x00, 0xF8, 0x00]"]
  by (simp add: needed_bytes_def cursor_advance_def)

section \<open>The 24-bit signed float\<close>

lemma DecodeU24_in:
  assumes "Parse_i P + 2 < length (Parse_bytes P)"
  shows "DecodeU24 P =
    (Int32 (uint (Parse_bytes P ! Parse_i P) * 65536 +
            uint (Parse_bytes P ! (Parse_i P + 1)) * 256 +
            uint (Parse_bytes P ! (Parse_i P + 2))),
     P\<lparr>Parse_i := Parse_i P + 3\<rparr>)"
  using assms js_shl_byte [of 16 "Parse_bytes P ! Parse_i P"]
    js_shl_byte [of 8 "Parse_bytes P ! (Parse_i P + 1)"]
  by (simp add: DecodeU24_def Let_def bytes_at_in Int32_def ToNumber_def)

text \<open>
  Claim C3. At every cursor with three bytes left, whose 24-bit big-endian value has
  the sign bit \<open>s\<close>, the exponent field \<open>E\<close> and the mantissa field \<open>M\<close>,
  \<open>DecodeSflt24\<close> returns the value the specification gives for them and moves the
  cursor by three.
\<close>

theorem DecodeSflt24_value:
  fixes s E M :: int
  assumes "Parse_i P + 2 < length (Parse_bytes P)"
    and "uint (Parse_bytes P ! Parse_i P) * 2 ^ 16 +
         uint (Parse_bytes P ! (Parse_i P + 1)) * 2 ^ 8 +
         uint (Parse_bytes P ! (Parse_i P + 2)) = s * 2 ^ 23 + E * 2 ^ 16 + M"
    and "s = 0 \<or> s = 1" and "0 \<le> E" and "E < 128" and "0 \<le> M" and "M < 65536"
  shows "DecodeSflt24 P = (Sflt24_value (s = 1) E M, P\<lparr>Parse_i := Parse_i P + 3\<rparr>)"
proof -
  define v where "v = s * 8388608 + E * 65536 + M"
  note f = fields_of_raw [OF assms(3-7), folded v_def]
  have raw: "DecodeU24 P = (Int32 v, P\<lparr>Parse_i := Parse_i P + 3\<rparr>)"
    using DecodeU24_in [OF assms(1)] assms(2) by (simp add: v_def)
  have ti: "ToInt32 (Int32 v) = v" using f(4,5) by (rule ToInt32_Int32)
  have sgn: "(js_and (Int32 v) 0x800000 \<noteq> 0) = (s = 1)"
    by (simp add: js_and_def ti sign_field f(3))
  have ex: "drop_bit 16 (js_and (Int32 v) 0x7F0000) = E"
    unfolding js_and_def ti by (simp only: exp_field f(2))
  have ma: "js_and (Int32 v) 0x00FFFF = M"
    by (simp add: js_and_def ti and_65535 f(1))
  have p: "0 < (2::real) powi k" for k by simp
  show ?thesis
  proof (cases "E = 127")
    case True
    then show ?thesis
      by (simp add: DecodeSflt24_def raw sgn ex ma Sflt24_value_def)
  next
    case notspecial: False
    show ?thesis
    proof (cases "E = 0")
      case False
      define a where "a = (real_of_int M + 65536) / 65536"
      have a: "0 < a" using assms(6) by (simp add: a_def)
      have m1: "js_div (Int32 (M + 65536)) (Fin 65536) = Fin a"
        using assms(6,7) js_div_pow2 [of "M + 65536" 16]
        by (simp add: Int32_def a_def add.commute)
      have m2: "js_mul (Fin (Math_pow2 (E - 63))) (Fin a) = Fin (2 powi (E - 63) * a)"
        using a p [of "E - 63"] by (simp add: Math_pow2_powi js_mul_Fin)
      have nz: "2 powi (E - 63) * a \<noteq> 0" using a p [of "E - 63"] by simp
      have code: "DecodeSflt24 P =
          (if s = 1 then Fin (- (2 powi (E - 63) * a)) else Fin (2 powi (E - 63) * a),
           P\<lparr>Parse_i := Parse_i P + 3\<rparr>)"
        using notspecial False nz by (simp add: DecodeSflt24_def raw sgn ex ma m1 m2)
      have spec: "Sflt24_value (s = 1) E M =
          (if s = 1 then Fin (- (2 powi (E - 63) * a)) else Fin (2 powi (E - 63) * a))"
        using notspecial False a p [of "E - 63"]
        by (simp add: Sflt24_value_def a_def [symmetric] js_mul_Fin_nz mult.commute)
      show ?thesis by (simp add: code spec)
    next
      case True
      define a where "a = real_of_int M / 65536"
      have a: "0 \<le> a" using assms(6) by (simp add: a_def)
      have m1: "js_div (Int32 M) (Fin 65536) = Fin a"
        using assms(6,7) js_div_pow2 [of M 16] by (simp add: Int32_def a_def)
      have m2: "js_mul (Fin (Math_pow2 (1 - 63))) (Fin a) = Fin (2 powi (1 - 63) * a)"
        using a p [of "1 - 63"] by (simp only: Math_pow2_powi) (simp add: js_mul_Fin)
      have code: "DecodeSflt24 P =
          (if s = 1 then js_neg (Fin (2 powi (1 - 63) * a)) else Fin (2 powi (1 - 63) * a),
           P\<lparr>Parse_i := Parse_i P + 3\<rparr>)"
        using True m2 by (simp add: DecodeSflt24_def raw sgn ex ma m1)
      have spec: "Sflt24_value (s = 1) E M =
          (if s = 1 then js_neg (Fin (2 powi (1 - 63) * a)) else Fin (2 powi (1 - 63) * a))"
      proof (cases "a = 0")
        case True
        then show ?thesis
          using \<open>E = 0\<close> p [of "1 - 63"]
          by (simp add: Sflt24_value_def a_def [symmetric] js_mul_minus_one_zero
              js_mul_NegZero_pos js_mul_Fin)
      next
        case False
        then show ?thesis
          using \<open>E = 0\<close> a p [of "1 - 63"]
          by (simp add: Sflt24_value_def a_def [symmetric] js_mul_Fin_nz mult.commute)
      qed
      show ?thesis by (simp add: code spec)
    qed
  qed
qed


theorem DecodeSflt24_value_witness:
  "DecodeSflt24 \<lparr>Parse_bytes = [0xFF, 0x00, 0x00], Parse_i = 0\<rparr> =
     (NegInf, \<lparr>Parse_bytes = [0xFF, 0x00, 0x00], Parse_i = 3\<rparr>) \<and>
   DecodeSflt24 \<lparr>Parse_bytes = [0x7F, 0x00, 0x01], Parse_i = 0\<rparr> =
     (NaN, \<lparr>Parse_bytes = [0x7F, 0x00, 0x01], Parse_i = 3\<rparr>) \<and>
   DecodeSflt24 \<lparr>Parse_bytes = [0x3F, 0x80, 0x00], Parse_i = 0\<rparr> =
     (Fin (3 / 2), \<lparr>Parse_bytes = [0x3F, 0x80, 0x00], Parse_i = 3\<rparr>) \<and>
   DecodeSflt24 \<lparr>Parse_bytes = [0xC0, 0x00, 0x00], Parse_i = 0\<rparr> =
     (Fin (- 2), \<lparr>Parse_bytes = [0xC0, 0x00, 0x00], Parse_i = 3\<rparr>) \<and>
   DecodeSflt24 \<lparr>Parse_bytes = [0x80, 0x00, 0x00], Parse_i = 0\<rparr> =
     (NegZero, \<lparr>Parse_bytes = [0x80, 0x00, 0x00], Parse_i = 3\<rparr>) \<and>
   DecodeSflt24 \<lparr>Parse_bytes = [0x00, 0x80, 0x00], Parse_i = 0\<rparr> =
     (Fin ((1 / 2) ^ 62 / 2), \<lparr>Parse_bytes = [0x00, 0x80, 0x00], Parse_i = 3\<rparr>)"
  using DecodeSflt24_value [of "\<lparr>Parse_bytes = [0xFF, 0x00, 0x00], Parse_i = 0\<rparr>" 1 127 0]
    DecodeSflt24_value [of "\<lparr>Parse_bytes = [0x7F, 0x00, 0x01], Parse_i = 0\<rparr>" 0 127 1]
    DecodeSflt24_value [of "\<lparr>Parse_bytes = [0x3F, 0x80, 0x00], Parse_i = 0\<rparr>" 0 63 32768]
    DecodeSflt24_value [of "\<lparr>Parse_bytes = [0xC0, 0x00, 0x00], Parse_i = 0\<rparr>" 1 64 0]
    DecodeSflt24_value [of "\<lparr>Parse_bytes = [0x80, 0x00, 0x00], Parse_i = 0\<rparr>" 1 0 0]
    DecodeSflt24_value [of "\<lparr>Parse_bytes = [0x00, 0x80, 0x00], Parse_i = 0\<rparr>" 0 0 32768]
  by (simp add: Sflt24_value_def js_mul_def zero_of_def power_int_def)

section \<open>The heat index at 90 degrees and 50 percent\<close>

text \<open>
  Claim C6 as stated fails: at \<open>t = 90\<close> and \<open>rh = 50\<close> the simple formula gives 91.05,
  and 91.05 + 90 is not below 160, so \<open>CalculateHeatIndex\<close> does not return it.
\<close>

theorem heat_index_90_50_counterexample:
  "tHeatEasy 90 50 = 91.05 \<and> \<not> (tHeatEasy 90 50 + 90 < 160) \<and>
   CalculateHeatIndex 90 50 \<noteq> Some (tHeatEasy 90 50)"
  by (simp add: CalculateHeatIndex_def tHeatEasy_def tHard_def tAdjust_def)

text \<open>
  Claim C6, as the code has it. At \<open>t = 90\<close> and \<open>rh = 50\<close> the test of the simple
  formula fails and \<open>CalculateHeatIndex\<close> returns the polynomial, with no adjustment:
  94.5969412 in exact arithmetic, within 0.01 of 94.6.
\<close>

theorem heat_index_90_50_polynomial:
  "\<not> (tHeatEasy 90 50 + 90 < 160) \<and>
   tAdjust 90 50 = 0 \<and>
   CalculateHeatIndex 90 50 = Some (tHard 90 50) \<and>
   tHard 90 50 = 94.5969412 \<and>
   \<bar>tHard 90 50 - 94.6\<bar> < 0.01"
  by (simp add: CalculateHeatIndex_def tHeatEasy_def tHard_def tAdjust_def)

section \<open>The record of a short buffer\<close>

text \<open>A block leaves the fields of the other blocks as they are.\<close>

lemma Decoder_volts_other:
  "k \<notin> {''vBat'', ''vBus'', ''vSys''} \<Longrightarrow> fst (Decoder_volts flags st) k = fst st k"
  by (cases st) (simp add: Decoder_volts_def case_prod_unfold Let_def)

lemma Decoder_version_other: "k \<noteq> ''version'' \<Longrightarrow> fst (Decoder_version flags st) k = fst st k"
  by (cases st) (simp add: Decoder_version_def case_prod_unfold Let_def)

lemma Decoder_boot_other: "k \<noteq> ''boot'' \<Longrightarrow> fst (Decoder_boot flags st) k = fst st k"
  by (cases st) (simp add: Decoder_boot_def case_prod_unfold Let_def)

lemma Decoder_t_rh_other:
  "k \<notin> {''t'', ''rh''} \<Longrightarrow> fst (Decoder_t_rh flags st) k = fst st k"
  by (cases st) (simp add: Decoder_t_rh_def case_prod_unfold Let_def)

lemmas block_other = Decoder_volts_other Decoder_version_other Decoder_boot_other
  Decoder_t_rh_other Decoder_lux_other Decoder_tap_other

lemma Decoder_volts_vals:
  assumes "flag_set flags 0x1"
  shows "fst (Decoder_volts flags st) ''vBat'' = Some (Num (fst (DecodeV (snd st))))"
    and "fst (Decoder_volts flags st) ''vBus'' =
           Some (Num (fst (DecodeV (snd (DecodeV (snd st))))))"
    and "fst (Decoder_volts flags st) ''vSys'' =
           Some (Num (fst (DecodeV (snd (DecodeV (snd (DecodeV (snd st))))))))"
  using assms by (cases st; simp add: Decoder_volts_def case_prod_unfold Let_def)+

lemma Decoder_version_val:
  assumes "flag_set flags 0x2"
  shows "fst (Decoder_version flags st) ''version'' =
    Some (Str (ToString (bytes_at (Parse_bytes (snd st)) (Parse_i (snd st))) @ ''.'' @
               ToString (bytes_at (Parse_bytes (snd st)) (Parse_i (snd st) + 1)) @ ''.'' @
               ToString (bytes_at (Parse_bytes (snd st)) (Parse_i (snd st) + 2)) @ ''.'' @
               ToString (bytes_at (Parse_bytes (snd st)) (Parse_i (snd st) + 3))))"
  using assms
  by (cases st) (simp add: Decoder_version_def read_inc_def case_prod_unfold Let_def
      numeral_2_eq_2 numeral_3_eq_3)

lemma Decoder_boot_val:
  assumes "flag_set flags 0x4"
  shows "fst (Decoder_boot flags st) ''boot'' =
    Some (of_elem (bytes_at (Parse_bytes (snd st)) (Parse_i (snd st))))"
  using assms by (cases st) (simp add: Decoder_boot_def read_inc_def case_prod_unfold Let_def)

lemma Decoder_t_rh_t:
  "flag_set flags 0x8 \<Longrightarrow> fst (Decoder_t_rh flags st) ''t'' = Some (Num (fst (DecodeI16 (snd st))))"
  by (cases st) (simp add: Decoder_t_rh_def case_prod_unfold Let_def)

lemma Decoder_lux_val:
  "flag_set flags 0x10 \<Longrightarrow> fst (Decoder_lux flags st) ''lux'' = Some (Num (fst (DecodeLux (snd st))))"
  by (cases st) (simp add: Decoder_lux_def case_prod_unfold Let_def)

lemma Decoder_tap_val:
  "flag_set flags 0x20 \<Longrightarrow> fst (Decoder_tap flags st) ''tap'' =
     Some (of_elem (bytes_at (Parse_bytes (snd st)) (Parse_i (snd st))))"
  by (cases st) (simp add: Decoder_tap_def)

text \<open>
  The value of every field of the record, for any buffer with a bitmap byte: the codec of
  the field at the offset of its group.
\<close>

lemma Decoder_fields_values:
  fixes bytes :: "8 word list"
  assumes len: "1 < length bytes"
  defines "b \<equiv> bytes ! 1"
  defines "P \<equiv> \<lambda>k. \<lparr>Parse_bytes = bytes, Parse_i = k\<rparr>"
  defines "decoded \<equiv> fst (Decoder_fields bytes)"
  shows "bit b 0 \<Longrightarrow> decoded ''vBat'' = Some (Num (fst (DecodeV (P 2))))"
    and "bit b 0 \<Longrightarrow> decoded ''vBus'' = Some (Num (fst (DecodeV (P 4))))"
    and "bit b 0 \<Longrightarrow> decoded ''vSys'' = Some (Num (fst (DecodeV (P 6))))"
    and "bit b 1 \<Longrightarrow> decoded ''version'' =
          Some (Str (ToString (bytes_at bytes (group_offset b 1)) @ ''.'' @
                     ToString (bytes_at bytes (group_offset b 1 + 1)) @ ''.'' @
                     ToString (bytes_at bytes (group_offset b 1 + 2)) @ ''.'' @
                     ToString (bytes_at bytes (group_offset b 1 + 3))))"
    and "bit b 2 \<Longrightarrow> decoded ''boot'' = Some (of_elem (bytes_at bytes (group_offset b 2)))"
    and "bit b 3 \<Longrightarrow> decoded ''t'' = Some (Num (fst (DecodeI16 (P (group_offset b 3)))))"
    and "bit b 3 \<Longrightarrow> decoded ''rh'' =
          Some (Num (js_div (js_mul (fst (DecodeUflt16 (P (group_offset b 3 + 2)))) (Fin 100))
                            (Fin 65535)))"
    and "bit b 4 \<Longrightarrow> decoded ''lux'' = Some (Num (fst (DecodeLux (P (group_offset b 4)))))"
    and "bit b 5 \<Longrightarrow> decoded ''tap'' = Some (of_elem (bytes_at bytes (group_offset b 5)))"
proof -
  define flags where "flags = bytes_at bytes 1"
  have fl: "flag_set flags 0x1 = bit b 0" "flag_set flags 0x2 = bit b 1"
    "flag_set flags 0x4 = bit b 2" "flag_set flags 0x8 = bit b 3"
    "flag_set flags 0x10 = bit b 4" "flag_set flags 0x20 = bit b 5"
    using len by (simp_all add: flags_def bytes_at_def flag_bits b_def)
  define st0 :: "jsobj \<times> Parse" where "st0 = (Map.empty, P 2)"
  define st1 where "st1 = Decoder_volts flags st0"
  define st2 where "st2 = Decoder_version flags st1"
  define st3 where "st3 = Decoder_boot flags st2"
  define st4 where "st4 = Decoder_t_rh flags st3"
  define st5 where "st5 = Decoder_lux flags st4"
  have dec: "decoded = fst (Decoder_tap flags st5)"
    by (simp add: decoded_def Decoder_fields_unfold st5_def st4_def st3_def st2_def st1_def
        st0_def P_def flags_def)
  have s1: "snd st1 = P (group_offset b 1)"
    by (simp add: st1_def st0_def snd_block fl group_offset_def P_def split del: if_split)
  have s2: "snd st2 = P (group_offset b 2)"
    by (simp add: st2_def s1 snd_block fl group_offset_def P_def split del: if_split)
  have s3: "snd st3 = P (group_offset b 3)"
    by (simp add: st3_def s2 snd_block fl group_offset_def P_def split del: if_split)
  have s4: "snd st4 = P (group_offset b 4)"
    by (simp add: st4_def s3 snd_block fl group_offset_def P_def split del: if_split)
  have s5: "snd st5 = P (group_offset b 5)"
    by (simp add: st5_def s4 snd_block fl group_offset_def P_def split del: if_split)
  have nx: "snd (DecodeV (P k)) = P (k + 2)" "snd (DecodeI16 (P k)) = P (k + 2)" for k
    by (simp_all add: snd_DecodeV snd_DecodeI16 P_def)
  have pb: "Parse_bytes (P k) = bytes" "Parse_i (P k) = k" for k
    by (simp_all add: P_def)
  have v: "decoded k = fst st1 k" if "k \<in> {''vBat'', ''vBus'', ''vSys''}" for k
    using that by (auto simp add: dec st5_def st4_def st3_def st2_def block_other)
  show "decoded ''vBat'' = Some (Num (fst (DecodeV (P 2))))" if "bit b 0"
    using that Decoder_volts_vals(1) [of flags st0] by (simp add: v st1_def fl st0_def)
  show "decoded ''vBus'' = Some (Num (fst (DecodeV (P 4))))" if "bit b 0"
    using that Decoder_volts_vals(2) [of flags st0] by (simp add: v st1_def fl st0_def nx)
  show "decoded ''vSys'' = Some (Num (fst (DecodeV (P 6))))" if "bit b 0"
    using that Decoder_volts_vals(3) [of flags st0] by (simp add: v st1_def fl st0_def nx)
  show "decoded ''version'' =
          Some (Str (ToString (bytes_at bytes (group_offset b 1)) @ ''.'' @
                     ToString (bytes_at bytes (group_offset b 1 + 1)) @ ''.'' @
                     ToString (bytes_at bytes (group_offset b 1 + 2)) @ ''.'' @
                     ToString (bytes_at bytes (group_offset b 1 + 3))))" if "bit b 1"
  proof -
    have "decoded ''version'' = fst st2 ''version''"
      by (simp add: dec st5_def st4_def st3_def block_other)
    then show ?thesis
      using that Decoder_version_val [of flags st1] by (simp add: st2_def fl s1 pb)
  qed
  show "decoded ''boot'' = Some (of_elem (bytes_at bytes (group_offset b 2)))" if "bit b 2"
  proof -
    have "decoded ''boot'' = fst st3 ''boot''"
      by (simp add: dec st5_def st4_def block_other)
    then show ?thesis
      using that Decoder_boot_val [of flags st2] by (simp add: st3_def fl s2 pb)
  qed
  have trh: "decoded k = fst st4 k" if "k \<in> {''t'', ''rh''}" for k
    using that by (auto simp add: dec st5_def block_other)
  show "decoded ''t'' = Some (Num (fst (DecodeI16 (P (group_offset b 3)))))" if "bit b 3"
    using that Decoder_t_rh_t [of flags st3] by (simp add: trh st4_def fl s3)
  show "decoded ''rh'' =
          Some (Num (js_div (js_mul (fst (DecodeUflt16 (P (group_offset b 3 + 2)))) (Fin 100))
                            (Fin 65535)))" if "bit b 3"
    using that Decoder_t_rh_rh [of flags st3] by (simp add: trh st4_def fl s3 nx)
  show "decoded ''lux'' = Some (Num (fst (DecodeLux (P (group_offset b 4)))))" if "bit b 4"
  proof -
    have "decoded ''lux'' = fst st5 ''lux''" by (simp add: dec block_other)
    then show ?thesis
      using that Decoder_lux_val [of flags st4] by (simp add: st5_def fl s4)
  qed
  show "decoded ''tap'' = Some (of_elem (bytes_at bytes (group_offset b 5)))" if "bit b 5"
    using that Decoder_tap_val [of flags st5] by (simp add: dec fl s5 pb)
qed

text \<open>
  Claim C1, as the code has it. The claim asks for a BufferUnderrun failure when a
  selected group lacks bytes. \<open>Decoder\<close> has no such failure: for the ports 1 and 4 and
  the format tag 0x50 it returns a record whatever the length of the buffer, the empty
  record when the bitmap byte itself is missing and otherwise a record with exactly the
  fields of the groups the bitmap selects. A field whose bytes lie past the end of the
  buffer is derived from the reads out of range: a voltage or the temperature that lacks
  its second byte is NaN, the humidity that lacks its second byte and the lux value that
  lacks its third byte are 0, the boot and the tap byte are \<open>undefined\<close>, and the four
  version bytes give the text of four times \<open>undefined\<close>.
\<close>

theorem short_buffer_record:
  fixes bytes :: "8 word list"
  assumes "port = 1 \<or> port = 4" and "bytes_at bytes 0 = Some 0x50"
  shows "(length bytes \<le> 1 \<longrightarrow> Decoder bytes port = Some Map.empty) \<and>
         (1 < length bytes \<longrightarrow>
            (\<exists>decoded. Decoder bytes port = Some decoded \<and>
               dom decoded = selected_fields (bytes ! 1) \<and>
               (bit (bytes ! 1) 0 \<and> length bytes \<le> 3 \<longrightarrow> decoded ''vBat'' = Some (Num NaN)) \<and>
               (bit (bytes ! 1) 0 \<and> length bytes \<le> 5 \<longrightarrow> decoded ''vBus'' = Some (Num NaN)) \<and>
               (bit (bytes ! 1) 0 \<and> length bytes \<le> 7 \<longrightarrow> decoded ''vSys'' = Some (Num NaN)) \<and>
               (bit (bytes ! 1) 1 \<and> length bytes \<le> group_offset (bytes ! 1) 1 \<longrightarrow>
                  decoded ''version'' = Some (Str ''undefined.undefined.undefined.undefined'')) \<and>
               (bit (bytes ! 1) 2 \<and> length bytes \<le> group_offset (bytes ! 1) 2 \<longrightarrow>
                  decoded ''boot'' = Some Undefined) \<and>
               (bit (bytes ! 1) 3 \<and> length bytes \<le> group_offset (bytes ! 1) 3 + 1 \<longrightarrow>
                  decoded ''t'' = Some (Num NaN)) \<and>
               (bit (bytes ! 1) 3 \<and> length bytes \<le> group_offset (bytes ! 1) 3 + 3 \<longrightarrow>
                  decoded ''rh'' = Some (Num (Fin 0))) \<and>
               (bit (bytes ! 1) 4 \<and> length bytes \<le> group_offset (bytes ! 1) 4 + 2 \<longrightarrow>
                  decoded ''lux'' = Some (Num (Fin 0))) \<and>
               (bit (bytes ! 1) 5 \<and> length bytes \<le> group_offset (bytes ! 1) 5 \<longrightarrow>
                  decoded ''tap'' = Some Undefined)))"
proof -
  have port: "port \<noteq> 3" using assms(1) by auto
  have d: "Decoder bytes port = Some (fst (Decoder_fields bytes))"
    using assms port by (auto simp add: Decoder_def)
  have short: "Decoder bytes port = Some Map.empty" if "length bytes \<le> 1"
    using that by (simp add: d Decoder_fields_short)
  have long: "\<exists>decoded. Decoder bytes port = Some decoded \<and>
               dom decoded = selected_fields (bytes ! 1) \<and>
               (bit (bytes ! 1) 0 \<and> length bytes \<le> 3 \<longrightarrow> decoded ''vBat'' = Some (Num NaN)) \<and>
               (bit (bytes ! 1) 0 \<and> length bytes \<le> 5 \<longrightarrow> decoded ''vBus'' = Some (Num NaN)) \<and>
               (bit (bytes ! 1) 0 \<and> length bytes \<le> 7 \<longrightarrow> decoded ''vSys'' = Some (Num NaN)) \<and>
               (bit (bytes ! 1) 1 \<and> length bytes \<le> group_offset (bytes ! 1) 1 \<longrightarrow>
                  decoded ''version'' = Some (Str ''undefined.undefined.undefined.undefined'')) \<and>
               (bit (bytes ! 1) 2 \<and> length bytes \<le> group_offset (bytes ! 1) 2 \<longrightarrow>
                  decoded ''boot'' = Some Undefined) \<and>
               (bit (bytes ! 1) 3 \<and> length bytes \<le> group_offset (bytes ! 1) 3 + 1 \<longrightarrow>
                  decoded ''t'' = Some (Num NaN)) \<and>
               (bit (bytes ! 1) 3 \<and> length bytes \<le> group_offset (bytes ! 1) 3 + 3 \<longrightarrow>
                  decoded ''rh'' = Some (Num (Fin 0))) \<and>
               (bit (bytes ! 1) 4 \<and> length bytes \<le> group_offset (bytes ! 1) 4 + 2 \<longrightarrow>
                  decoded ''lux'' = Some (Num (Fin 0))) \<and>
               (bit (bytes ! 1) 5 \<and> length bytes \<le> group_offset (bytes ! 1) 5 \<longrightarrow>
                  decoded ''tap'' = Some Undefined)"
    if len: "1 < length bytes"
  proof -
    let ?b = "bytes ! 1"
    let ?d = "fst (Decoder_fields bytes)"
    note vals = Decoder_fields_values [OF len]
    have dm: "dom ?d = selected_fields ?b" by (rule Decoder_fields_dom [OF len])
    have vBat: "?d ''vBat'' = Some (Num NaN)" if "bit ?b 0" "length bytes \<le> 3"
      using that by (simp add: vals(1) DecodeV_short)
    have vBus: "?d ''vBus'' = Some (Num NaN)" if "bit ?b 0" "length bytes \<le> 5"
      using that by (simp add: vals(2) DecodeV_short)
    have vSys: "?d ''vSys'' = Some (Num NaN)" if "bit ?b 0" "length bytes \<le> 7"
      using that by (simp add: vals(3) DecodeV_short)
    have version: "?d ''version'' = Some (Str ''undefined.undefined.undefined.undefined'')"
      if "bit ?b 1" "length bytes \<le> group_offset ?b 1"
      using that by (simp add: vals(4) bytes_at_out ToString_def)
    have boot: "?d ''boot'' = Some Undefined"
      if "bit ?b 2" "length bytes \<le> group_offset ?b 2"
      using that by (simp add: vals(5) bytes_at_out of_elem_def)
    have t: "?d ''t'' = Some (Num NaN)"
      if "bit ?b 3" "length bytes \<le> group_offset ?b 3 + 1"
      using that by (simp add: vals(6) DecodeI16_short)
    have rh: "?d ''rh'' = Some (Num (Fin 0))"
      if "bit ?b 3" "length bytes \<le> group_offset ?b 3 + 3"
      using that by (simp add: vals(7) DecodeUflt16_short js_mul_Fin js_div_zero)
    have lux: "?d ''lux'' = Some (Num (Fin 0))"
      if "bit ?b 4" "length bytes \<le> group_offset ?b 4 + 2"
      using that by (simp add: vals(8) DecodeLux_short)
    have tap: "?d ''tap'' = Some Undefined"
      if "bit ?b 5" "length bytes \<le> group_offset ?b 5"
      using that by (simp add: vals(9) bytes_at_out of_elem_def)
    show ?thesis
      by (rule exI [of _ ?d]) (simp add: d dm vBat vBus vSys version boot t rh lux tap)
  qed
  show ?thesis by (intro conjI impI) (erule short, erule long)
qed

theorem short_buffer_record_witness:
  "Decoder [0x50] 1 = Some Map.empty \<and>
   (\<exists>decoded. Decoder [0x50, 0x3F] 4 = Some decoded \<and>
      dom decoded = {''vBat'', ''vBus'', ''vSys'', ''version'', ''boot'', ''t'', ''rh'', ''lux'', ''tap''} \<and>
      decoded ''vBat'' = Some (Num NaN) \<and>
      decoded ''vBus'' = Some (Num NaN) \<and>
      decoded ''vSys'' = Some (Num NaN) \<and>
      decoded ''version'' = Some (Str ''undefined.undefined.undefined.undefined'') \<and>
      decoded ''boot'' = Some Undefined \<and>
      decoded ''t'' = Some (Num NaN) \<and>
      decoded ''rh'' = Some (Num (Fin 0)) \<and>
      decoded ''lux'' = Some (Num (Fin 0)) \<and>
      decoded ''tap'' = Some Undefined) \<and>
   (\<exists>decoded. Decoder [0x50, 0x0C, 0x07, 0x01] 1 = Some decoded \<and>
      dom decoded = {''boot'', ''t'', ''rh''} \<and>
      decoded ''t'' = Some (Num NaN) \<and>
      decoded ''rh'' = Some (Num (Fin 0)))"
proof -
  have 1: "Decoder [0x50] 1 = Some Map.empty"
    using short_buffer_record [of 1 "[0x50]"] by (simp add: bytes_at_def)
  have 2: "\<exists>decoded. Decoder [0x50, 0x3F] 4 = Some decoded \<and>
      dom decoded = {''vBat'', ''vBus'', ''vSys'', ''version'', ''boot'', ''t'', ''rh'', ''lux'', ''tap''} \<and>
      decoded ''vBat'' = Some (Num NaN) \<and>
      decoded ''vBus'' = Some (Num NaN) \<and>
      decoded ''vSys'' = Some (Num NaN) \<and>
      decoded ''version'' = Some (Str ''undefined.undefined.undefined.undefined'') \<and>
      decoded ''boot'' = Some Undefined \<and>
      decoded ''t'' = Some (Num NaN) \<and>
      decoded ''rh'' = Some (Num (Fin 0)) \<and>
      decoded ''lux'' = Some (Num (Fin 0)) \<and>
      decoded ''tap'' = Some Undefined"
    using short_buffer_record [of 4 "[0x50, 0x3F]"]
    by (simp add: bytes_at_def selected_fields_def group_offset_def insert_commute)
  have 3: "\<exists>decoded. Decoder [0x50, 0x0C, 0x07, 0x01] 1 = Some decoded \<and>
      dom decoded = {''boot'', ''t'', ''rh''} \<and>
      decoded ''t'' = Some (Num NaN) \<and>
      decoded ''rh'' = Some (Num (Fin 0))"
    using short_buffer_record [of 1 "[0x50, 0x0C, 0x07, 0x01]"]
    by (auto simp add: bytes_at_def selected_fields_def group_offset_def insert_commute)
  show ?thesis using 1 2 3 by blast
qed

text \<open>
  Claim C1 as stated fails on the buffer 0x50 0x08 at port 1: the bitmap selects the
  temperature and the humidity, four bytes, and none follows; the decode does not fail
  but returns a record whose \<open>t\<close> is NaN and whose \<open>rh\<close> is 0.
\<close>

theorem short_buffer_counterexample:
  "length [0x50, 0x08 :: 8 word] < 2 + needed_bytes 0x08 \<and>
   Decoder [0x50, 0x08] 1 \<noteq> None \<and>
   Decoder [0x50, 0x08] 1 = Some [''t'' \<mapsto> Num NaN, ''rh'' \<mapsto> Num (Fin 0)]"
proof -
  have t: "fst (DecodeI16 \<lparr>Parse_bytes = [0x50, 0x08], Parse_i = 2\<rparr>) = NaN"
    by (rule DecodeI16_short) simp
  have rh: "fst (DecodeUflt16 \<lparr>Parse_bytes = [0x50, 0x08], Parse_i = 4\<rparr>) = Fin 0"
    by (rule DecodeUflt16_short) simp
  have "Decoder_fields [0x50, 0x08] =
      ([''t'' \<mapsto> Num NaN, ''rh'' \<mapsto> Num (Fin 0)], \<lparr>Parse_bytes = [0x50, 0x08], Parse_i = 6\<rparr>)"
    by (simp add: Decoder_fields_unfold bytes_at_def flags_0x08
        Decoder_volts_def Decoder_version_def Decoder_boot_def Decoder_t_rh_def
        Decoder_lux_def Decoder_tap_def case_prod_unfold snd_DecodeI16 snd_DecodeUflt16
        t rh js_mul_def js_div_def zero_of_def)
  then show ?thesis
    by (simp add: Decoder_def bytes_at_def needed_bytes_def cursor_advance_def)
qed

end
